theory Spec2Isabelle
  imports Main "HOL-Library.Sublist"
begin

section \<open>C values of the shell\<close>

text \<open>
  The line the shell works on lives in one buffer, and the parser's pointers point into
  it. A buffer is given by its bytes before the terminating NUL of the block; a pointer
  into it by its offset. \<^verbatim>\<open>strtok\<close> writes NUL bytes into the buffer, so a string is always
  read from the buffer as it is at that moment: from the offset up to the next NUL.
\<close>

definition NUL :: char where
  "NUL = CHR 0x00"

definition c_string :: "string \<Rightarrow> nat \<Rightarrow> string" where
  "c_string buf p = takeWhile (\<lambda>c. c \<noteq> NUL) (drop p buf)"

text \<open>
  A value of type \<^verbatim>\<open>char *\<close> in the parsed command: the null pointer, a pointer into the
  buffer, or the indeterminate value of an object that was declared and never assigned.
\<close>

datatype cptr = Uninit | Null | Ptr nat

text \<open>
  Behaviour that C leaves undefined is a value of the model: an access through an index
  outside the array \<^verbatim>\<open>args\<close>, a read of an object that was never assigned, and a null
  pointer handed to a function that reads a string.
\<close>

datatype fault = OutOfBounds nat | IndeterminateRead | NullDereference

definition MAX_INPUT :: nat where
  "MAX_INPUT = 1024"

definition MAX_ARGS :: nat where
  "MAX_ARGS = 100"

text \<open>
  \<^verbatim>\<open>struct ShellCommand { char *args[MAX_ARGS]; char *inputFile; char *outputFile; }\<close>.
  The array is a list of \<open>MAX_ARGS\<close> cells.
\<close>

record ShellCommand =
  args :: "cptr list"
  inputFile :: cptr
  outputFile :: cptr

section \<open>The tokenizer: strtok\<close>

text \<open>
  \<^verbatim>\<open>strtok\<close> keeps one hidden pointer between calls; the model passes it along as
  \<open>saved\<close>. A search from a position skips the separators (\<^verbatim>\<open>strspn\<close>); at the end
  of the string it returns the null pointer; otherwise the token starts there and runs
  up to the next separator or to the end of the string (\<^verbatim>\<open>strcspn\<close>). A separator that
  ends the token is overwritten by NUL and the saved pointer moves behind it; a token
  that ends with the string leaves the saved pointer at the terminating NUL.
\<close>

definition strtok_scan :: "string \<Rightarrow> string \<Rightarrow> nat \<Rightarrow> cptr \<times> string \<times> nat" where
  "strtok_scan delim buf p =
     (let start = p + length (takeWhile (\<lambda>c. c \<in> set delim) (c_string buf p));
          stop = start + length (takeWhile (\<lambda>c. c \<notin> set delim) (c_string buf start))
      in if c_string buf start = [] then (Null, buf, start)
         else if c_string buf stop = [] then (Ptr start, buf, stop)
         else (Ptr start, buf[stop := NUL], Suc stop))"

text \<open>
  \<^verbatim>\<open>strtok(str, delim)\<close>: with a string the search starts there and the saved pointer of
  earlier calls is forgotten; with \<^verbatim>\<open>NULL\<close> it starts from the saved pointer. The result
  is the token, the buffer as the call leaves it, and the new saved pointer.
\<close>

definition strtok :: "cptr \<Rightarrow> string \<Rightarrow> string \<Rightarrow> nat \<Rightarrow> cptr \<times> string \<times> nat" where
  "strtok str delim buf saved = strtok_scan delim buf (case str of Ptr p \<Rightarrow> p | _ \<Rightarrow> saved)"

section \<open>parseInput\<close>

text \<open>The separators of the source, \<^verbatim>\<open>" \n"\<close>: the space and the newline.\<close>

definition delims :: string where
  "delims = '' \<newline>''"

text \<open>
  The \<^verbatim>\<open>while (token != NULL)\<close> loop of \<^verbatim>\<open>parseInput\<close>, with the token, the buffer, the
  pointer of \<^verbatim>\<open>strtok\<close>, the index \<^verbatim>\<open>i\<close> and the command under construction.
  \<^verbatim>\<open>strcmp(token, "<") == 0\<close> reads the token from the buffer. The store
  \<^verbatim>\<open>command.args[i++] = token\<close> has no bound check in the source; here it faults
  when \<open>i\<close> is not an index of the array.
\<close>

function parse_loop ::
  "cptr \<Rightarrow> string \<Rightarrow> nat \<Rightarrow> nat \<Rightarrow> ShellCommand
     \<Rightarrow> fault + (nat \<times> ShellCommand \<times> string \<times> nat)" where
  "parse_loop Uninit buf saved i command = Inl IndeterminateRead"
| "parse_loop Null buf saved i command = Inr (i, command, buf, saved)"
| "parse_loop (Ptr token) buf saved i command =
     (if c_string buf token = ''<'' then
        (case strtok Null delims buf saved of (path, buf1, saved1) \<Rightarrow>
           case strtok Null delims buf1 saved1 of (nxt, buf2, saved2) \<Rightarrow>
             parse_loop nxt buf2 saved2 i (command\<lparr>inputFile := path\<rparr>))
      else if c_string buf token = ''>'' then
        (case strtok Null delims buf saved of (path, buf1, saved1) \<Rightarrow>
           case strtok Null delims buf1 saved1 of (nxt, buf2, saved2) \<Rightarrow>
             parse_loop nxt buf2 saved2 i (command\<lparr>outputFile := path\<rparr>))
      else if i < MAX_ARGS then
        (case strtok Null delims buf saved of (nxt, buf1, saved1) \<Rightarrow>
           parse_loop nxt buf1 saved1 (Suc i)
             (command\<lparr>args := (args command)[i := Ptr token]\<rparr>))
      else Inl (OutOfBounds i))"
  by pat_completeness auto

lemma drop_takeWhile:
  "k \<le> length (takeWhile P xs) \<Longrightarrow> drop k (takeWhile P xs) = takeWhile P (drop k xs)"
proof (induction xs arbitrary: k)
  case (Cons x xs)
  then show ?case by (cases k) (auto split: if_splits)
qed simp

lemma c_string_add:
  "k \<le> length (c_string buf p) \<Longrightarrow> c_string buf (p + k) = drop k (c_string buf p)"
  by (simp add: c_string_def drop_takeWhile add.commute)

lemma c_string_skip:
  "c_string buf (p + length (takeWhile P (c_string buf p))) = dropWhile P (c_string buf p)"
  by (simp add: c_string_add length_takeWhile_le dropWhile_eq_drop)

lemma c_string_nonempty: "c_string buf p \<noteq> [] \<Longrightarrow> p < length buf"
  by (cases "p < length buf") (auto simp: c_string_def)

lemma strtok_scan_length [simp]: "length (fst (snd (strtok_scan d buf p))) = length buf"
  by (simp add: strtok_scan_def Let_def)

lemma strtok_scan_saved: "p \<le> snd (snd (strtok_scan d buf p))"
  by (simp add: strtok_scan_def Let_def)

lemma strtok_scan_Ptr_advances:
  assumes "fst (strtok_scan d buf p) = Ptr q"
  shows "p < snd (snd (strtok_scan d buf p))" and "p < length buf"
proof -
  define k where "k = length (takeWhile (\<lambda>c. c \<in> set d) (c_string buf p))"
  define s1 where "s1 = c_string buf (p + k)"
  define m where "m = length (takeWhile (\<lambda>c. c \<notin> set d) s1)"
  have s1: "s1 = dropWhile (\<lambda>c. c \<in> set d) (c_string buf p)"
    by (simp add: s1_def k_def c_string_skip)
  from assms have ne: "s1 \<noteq> []"
    by (auto simp: strtok_scan_def Let_def s1_def k_def split: if_splits)
  then have "hd s1 \<notin> set d"
    unfolding s1 using hd_dropWhile by blast
  with ne have "0 < m"
    by (cases s1) (auto simp: m_def)
  with ne show "p < snd (snd (strtok_scan d buf p))"
    by (auto simp: strtok_scan_def Let_def s1_def [symmetric] k_def [symmetric] m_def [symmetric])
  from ne have "p + k < length buf"
    unfolding s1_def by (rule c_string_nonempty)
  then show "p < length buf" by simp
qed

lemma strtok_measure:
  assumes "strtok Null delims buf saved = (nxt, buf1, saved1)"
  shows "(case nxt of Ptr t \<Rightarrow> Suc (length buf1 - saved1) | _ \<Rightarrow> 0) < Suc (length buf - saved)"
    and "length buf1 = length buf" and "saved \<le> saved1"
proof -
  from assms have scan: "strtok_scan delims buf saved = (nxt, buf1, saved1)"
    by (simp add: strtok_def)
  then show len: "length buf1 = length buf"
    using strtok_scan_length [of delims buf saved] by simp
  from scan show "saved \<le> saved1"
    using strtok_scan_saved [of saved delims buf] by simp
  show "(case nxt of Ptr t \<Rightarrow> Suc (length buf1 - saved1) | _ \<Rightarrow> 0) < Suc (length buf - saved)"
  proof (cases nxt)
    case (Ptr q)
    with scan have "saved < saved1" "saved < length buf"
      using strtok_scan_Ptr_advances [of delims buf saved q] by simp_all
    with len Ptr show ?thesis by simp
  qed simp_all
qed

lemma strtok_measure2:
  assumes "strtok Null delims buf saved = (path, buf1, saved1)"
    and "strtok Null delims buf1 saved1 = (nxt, buf2, saved2)"
  shows "(case nxt of Ptr t \<Rightarrow> Suc (length buf2 - saved2) | _ \<Rightarrow> 0) < Suc (length buf - saved)"
  using strtok_measure [OF assms(1)] strtok_measure(1) [OF assms(2)]
  by (cases nxt) auto

termination parse_loop
proof (relation "measure (\<lambda>(token, buf, saved, i, command).
          case token of Ptr t \<Rightarrow> Suc (length buf - saved) | _ \<Rightarrow> 0)", goal_cases)
  case 1
  show ?case by simp
next
  case (2 token buf saved i command path r1 buf1 saved1 nxt r2 buf2 saved2)
  then have "strtok Null delims buf saved = (path, buf1, saved1)"
    "strtok Null delims buf1 saved1 = (nxt, buf2, saved2)"
    by simp_all
  then show ?case
    using strtok_measure2 by simp
next
  case (3 token buf saved i command path r1 buf1 saved1 nxt r2 buf2 saved2)
  then have "strtok Null delims buf saved = (path, buf1, saved1)"
    "strtok Null delims buf1 saved1 = (nxt, buf2, saved2)"
    by simp_all
  then show ?case
    using strtok_measure2 by simp
next
  case (4 token buf saved i command nxt r1 buf1 saved1)
  then have "strtok Null delims buf saved = (nxt, buf1, saved1)"
    by simp
  then show ?case
    using strtok_measure(1) by simp
qed

text \<open>
  \<^verbatim>\<open>parseInput\<close>: the command is declared (every field indeterminate), the two redirect
  fields are set to \<^verbatim>\<open>NULL\<close>, the first token is taken from the input (the start of the
  buffer), the loop runs, and \<^verbatim>\<open>command.args[i] = NULL\<close> ends the argument vector, again
  with no bound check in the source. The result carries the buffer and the pointer of
  \<^verbatim>\<open>strtok\<close> as the call leaves them.
\<close>

definition parseInput :: "string \<Rightarrow> nat \<Rightarrow> fault + (ShellCommand \<times> string \<times> nat)" where
  "parseInput buf saved =
     (let command = \<lparr>args = replicate MAX_ARGS Uninit, inputFile = Uninit, outputFile = Uninit\<rparr>;
          command = command\<lparr>inputFile := Null\<rparr>;
          command = command\<lparr>outputFile := Null\<rparr>
      in case strtok (Ptr 0) delims buf saved of (token, buf0, saved0) \<Rightarrow>
           (case parse_loop token buf0 saved0 0 command of
              Inl f \<Rightarrow> Inl f
            | Inr (i, command, buf', saved') \<Rightarrow>
                if i < MAX_ARGS
                then Inr (command\<lparr>args := (args command)[i := Null]\<rparr>, buf', saved')
                else Inl (OutOfBounds i)))"

section \<open>The interpreter process and its environment\<close>

text \<open>
  What a forked child does, as the sequence of its calls: \<^verbatim>\<open>open\<close>, \<^verbatim>\<open>dup2\<close>,
  \<^verbatim>\<open>close\<close>, \<^verbatim>\<open>printf\<close>, \<^verbatim>\<open>execvp\<close> and \<^verbatim>\<open>exit\<close>.
\<close>

datatype oflag = O_RDONLY | O_WRONLY | O_CREAT | O_TRUNC

datatype event =
    EvOpen string "oflag list" "nat option"
  | EvDup2 int int
  | EvClose int
  | EvPrintf string
  | EvExecvp string "string list"
  | EvExit int

text \<open>
  The state of the interpreter process: its working directory, what it has written to
  standard output and to standard error, the bytes of standard input it has not read
  yet, the children it has forked (each with the calls it made), and the hidden pointer
  of \<^verbatim>\<open>strtok\<close>. Buffering of the streams and \<^verbatim>\<open>free\<close> are not modelled, nor is what a
  child takes from the standard input it shares with the interpreter.
\<close>

record shell =
  cwd :: string
  stdout :: string
  stderr :: string
  stdin :: string
  children :: "event list list"
  strtok_saved :: nat

text \<open>
  The operating system decides what the calls return; the model takes these decisions
  as parameters, so a theorem holds for every behaviour of the system. A failing call
  gives its \<^verbatim>\<open>errno\<close>. \<open>os_chdir\<close> gets the working directory and the path and gives
  the new working directory; a failed \<^verbatim>\<open>chdir\<close> changes nothing.
\<close>

record os =
  os_getcwd :: "string \<Rightarrow> int option"
  os_malloc :: "shell \<Rightarrow> int option"
  os_chdir :: "string \<Rightarrow> string \<Rightarrow> int + string"
  os_fork :: "shell \<Rightarrow> int option"
  os_open :: "string \<Rightarrow> string \<Rightarrow> oflag list \<Rightarrow> int + int"
  os_execvp :: "string \<Rightarrow> string list \<Rightarrow> int option"
  strerror :: "int \<Rightarrow> string"

text \<open>A call either returns, ends the process through \<^verbatim>\<open>exit\<close>, or is undefined.\<close>

datatype 'a result = Fault fault | Exits int shell | Returns 'a shell

text \<open>The conversion \<^verbatim>\<open>%d\<close> of \<^verbatim>\<open>printf\<close>.\<close>

fun digits :: "nat \<Rightarrow> string" where
  "digits n = (if n < 10 then [''0123456789'' ! n]
               else digits (n div 10) @ [''0123456789'' ! (n mod 10)])"

declare digits.simps [simp del]

definition fmt_d :: "int \<Rightarrow> string" where
  "fmt_d k = (if k < 0 then CHR ''-'' # digits (nat (- k)) else digits (nat k))"

text \<open>\<^verbatim>\<open>printf("Error %d (%s)\n", errno, strerror(errno))\<close>, the text it writes.\<close>

definition error_line :: "os \<Rightarrow> int \<Rightarrow> string" where
  "error_line sys errno = ''Error '' @ fmt_d errno @ '' ('' @ strerror sys errno @ '')\<newline>''"

text \<open>\<^verbatim>\<open>perror(label)\<close>: the label, a colon, the message of \<^verbatim>\<open>errno\<close>, on standard error.\<close>

definition perror :: "os \<Rightarrow> string \<Rightarrow> int \<Rightarrow> shell \<Rightarrow> shell" where
  "perror sys label errno s = s\<lparr>stderr := stderr s @ label @ '': '' @ strerror sys errno @ ''\<newline>''\<rparr>"

subsection \<open>displayPrompt and getInput\<close>

definition displayPrompt :: "os \<Rightarrow> shell \<Rightarrow> shell" where
  "displayPrompt sys s =
     (case os_getcwd sys (cwd s) of
        None \<Rightarrow> s\<lparr>stdout := stdout s @ cwd s @ ''$ ''\<rparr>
      | Some errno \<Rightarrow> perror sys ''getcwd'' errno s)"

text \<open>
  \<^verbatim>\<open>fgets(buffer, n, stdin)\<close> takes at most \<open>n - 1\<close> characters and stops behind a
  newline; the result is what it stored and what is left unread.
\<close>

fun fgets :: "nat \<Rightarrow> string \<Rightarrow> string \<times> string" where
  "fgets n [] = ([], [])"
| "fgets n (c # cs) =
     (if n \<le> 1 then ([], c # cs)
      else if c = CHR ''\<newline>'' then ([c], cs)
      else (case fgets (n - 1) cs of (taken, rest) \<Rightarrow> (c # taken, rest)))"

text \<open>
  \<^verbatim>\<open>getInput\<close>: a failed \<^verbatim>\<open>malloc\<close> reports and exits with status 1; at the end of
  the input \<^verbatim>\<open>fgets\<close> gives \<^verbatim>\<open>NULL\<close>, and so does \<^verbatim>\<open>getInput\<close> (\<open>None\<close>);
  otherwise the result is the fresh buffer with what \<^verbatim>\<open>fgets\<close> stored in it.
\<close>

definition getInput :: "os \<Rightarrow> shell \<Rightarrow> string option result" where
  "getInput sys s =
     (case os_malloc sys s of
        Some errno \<Rightarrow> Exits 1 (perror sys ''malloc'' errno s)
      | None \<Rightarrow>
          if stdin s = [] then Returns None s
          else Returns (Some (fst (fgets MAX_INPUT (stdin s))))
                 (s\<lparr>stdin := snd (fgets MAX_INPUT (stdin s))\<rparr>))"

subsection \<open>executeCommand\<close>

text \<open>
  Reading \<^verbatim>\<open>command.args[k]\<close>. A cell that was never assigned, or an index that is not
  one of the array, has no defined value.
\<close>

definition read_arg :: "ShellCommand \<Rightarrow> nat \<Rightarrow> fault + cptr" where
  "read_arg command k =
     (if k < length (args command)
      then (case args command ! k of Uninit \<Rightarrow> Inl IndeterminateRead | p \<Rightarrow> Inr p)
      else Inl (OutOfBounds k))"

text \<open>
  The argument vector as \<^verbatim>\<open>execvp\<close> reads it: the strings, in the buffer, of the cells
  before the first \<^verbatim>\<open>NULL\<close>.
\<close>

fun read_argv :: "string \<Rightarrow> cptr list \<Rightarrow> nat \<Rightarrow> fault + string list" where
  "read_argv buf [] k = Inl (OutOfBounds k)"
| "read_argv buf (Uninit # cells) k = Inl IndeterminateRead"
| "read_argv buf (Null # cells) k = Inr []"
| "read_argv buf (Ptr p # cells) k =
     (case read_argv buf cells (Suc k) of
        Inl f \<Rightarrow> Inl f
      | Inr as \<Rightarrow> Inr (c_string buf p # as))"

definition argv :: "string \<Rightarrow> ShellCommand \<Rightarrow> fault + string list" where
  "argv buf command = read_argv buf (args command) 0"

text \<open>
  The child, block by block. The mode \<^verbatim>\<open>0644\<close> of the source is octal: 420. Each
  redirection gives the calls it makes and whether the child goes on (\<open>True\<close>) or has
  left through \<^verbatim>\<open>exit(1)\<close> (\<open>False\<close>).
\<close>

definition child_input ::
  "os \<Rightarrow> ShellCommand \<Rightarrow> string \<Rightarrow> shell \<Rightarrow> fault + (event list \<times> bool)" where
  "child_input sys command buf s =
     (case inputFile command of
        Uninit \<Rightarrow> Inl IndeterminateRead
      | Null \<Rightarrow> Inr ([], True)
      | Ptr p \<Rightarrow>
          (case os_open sys (cwd s) (c_string buf p) [O_RDONLY] of
             Inl errno \<Rightarrow>
               Inr ([EvOpen (c_string buf p) [O_RDONLY] None,
                     EvPrintf (error_line sys errno), EvExit 1], False)
           | Inr fd \<Rightarrow>
               Inr ([EvOpen (c_string buf p) [O_RDONLY] None, EvDup2 fd 0, EvClose fd], True)))"

definition child_output ::
  "os \<Rightarrow> ShellCommand \<Rightarrow> string \<Rightarrow> shell \<Rightarrow> fault + (event list \<times> bool)" where
  "child_output sys command buf s =
     (case outputFile command of
        Uninit \<Rightarrow> Inl IndeterminateRead
      | Null \<Rightarrow> Inr ([], True)
      | Ptr p \<Rightarrow>
          (case os_open sys (cwd s) (c_string buf p) [O_WRONLY, O_CREAT, O_TRUNC] of
             Inl errno \<Rightarrow>
               Inr ([EvOpen (c_string buf p) [O_WRONLY, O_CREAT, O_TRUNC] (Some 420),
                     EvPrintf (error_line sys errno), EvExit 1], False)
           | Inr fd \<Rightarrow>
               Inr ([EvOpen (c_string buf p) [O_WRONLY, O_CREAT, O_TRUNC] (Some 420),
                     EvDup2 fd 1, EvClose fd], True)))"

text \<open>
  \<^verbatim>\<open>execvp(command.args[0], command.args)\<close> and what follows it: when the call returns
  it has failed, the child reports and leaves with status 1.
\<close>

definition child_exec :: "os \<Rightarrow> ShellCommand \<Rightarrow> string \<Rightarrow> fault + event list" where
  "child_exec sys command buf =
     (case read_arg command 0 of
        Inl f \<Rightarrow> Inl f
      | Inr (Ptr p) \<Rightarrow>
          (case argv buf command of
             Inl f \<Rightarrow> Inl f
           | Inr av \<Rightarrow>
               (case os_execvp sys (c_string buf p) av of
                  None \<Rightarrow> Inr [EvExecvp (c_string buf p) av]
                | Some errno \<Rightarrow>
                    Inr [EvExecvp (c_string buf p) av, EvPrintf (error_line sys errno), EvExit 1]))
      | Inr _ \<Rightarrow> Inl NullDereference)"

definition child :: "os \<Rightarrow> ShellCommand \<Rightarrow> string \<Rightarrow> shell \<Rightarrow> fault + event list" where
  "child sys command buf s =
     (case child_input sys command buf s of
        Inl f \<Rightarrow> Inl f
      | Inr (ev_in, go_in) \<Rightarrow>
          if \<not> go_in then Inr ev_in
          else
            (case child_output sys command buf s of
               Inl f \<Rightarrow> Inl f
             | Inr (ev_out, go_out) \<Rightarrow>
                 if \<not> go_out then Inr (ev_in @ ev_out)
                 else
                   (case child_exec sys command buf of
                      Inl f \<Rightarrow> Inl f
                    | Inr ev \<Rightarrow> Inr (ev_in @ ev_out @ ev))))"

text \<open>
  \<^verbatim>\<open>executeCommand\<close>, in the order of the source: the empty command, the built-in
  \<^verbatim>\<open>exit\<close>, the built-in \<^verbatim>\<open>cd\<close>, and the external command. A failed \<^verbatim>\<open>fork\<close> is
  reported and the command given up; otherwise the child runs and the parent waits for
  it. The command is passed with the buffer its pointers point into.
\<close>

definition executeCommand :: "os \<Rightarrow> ShellCommand \<Rightarrow> string \<Rightarrow> shell \<Rightarrow> unit result" where
  "executeCommand sys command buf s =
     (case read_arg command 0 of
        Inl f \<Rightarrow> Fault f
      | Inr (Ptr name) \<Rightarrow>
          if c_string buf name = ''exit'' then Exits 0 s
          else if c_string buf name = ''cd'' then
            (case read_arg command 1 of
               Inl f \<Rightarrow> Fault f
             | Inr (Ptr dir) \<Rightarrow>
                 (case os_chdir sys (cwd s) (c_string buf dir) of
                    Inl errno \<Rightarrow> Returns () (s\<lparr>stdout := stdout s @ error_line sys errno\<rparr>)
                  | Inr dir' \<Rightarrow> Returns () (s\<lparr>cwd := dir'\<rparr>))
             | Inr _ \<Rightarrow> Returns () (s\<lparr>stderr := stderr s @ ''cd: missing argument\<newline>''\<rparr>))
          else
            (case os_fork sys s of
               Some errno \<Rightarrow> Returns () (perror sys ''fork'' errno s)
             | None \<Rightarrow>
                 (case child sys command buf s of
                    Inl f \<Rightarrow> Fault f
                  | Inr trace \<Rightarrow> Returns () (s\<lparr>children := children s @ [trace]\<rparr>)))
      | Inr _ \<Rightarrow> Returns () s)"

subsection \<open>The loop of main\<close>

text \<open>
  How a pass through the body of the \<^verbatim>\<open>for (;;)\<close> loop of \<^verbatim>\<open>main\<close> ends: the loop goes on
  with its next pass, which starts with \<^verbatim>\<open>displayPrompt\<close> (after \<^verbatim>\<open>continue\<close> and at the
  end of the body), or it is left (\<^verbatim>\<open>break\<close>, and \<^verbatim>\<open>main\<close> returns 0).
\<close>

datatype loop_control = Continue | Break

text \<open>
  One pass through the body of the loop: the prompt, the line, the test for the line
  that is only a newline, the parser and the executor.
\<close>

definition shell_step :: "os \<Rightarrow> shell \<Rightarrow> loop_control result" where
  "shell_step sys s =
     (case getInput sys (displayPrompt sys s) of
        Fault f \<Rightarrow> Fault f
      | Exits status s' \<Rightarrow> Exits status s'
      | Returns (Some input) s' \<Rightarrow>
          if c_string input 0 = ''\<newline>'' then Returns Continue s'
          else
            (case parseInput input (strtok_saved s') of
               Inl f \<Rightarrow> Fault f
             | Inr (command, input', saved) \<Rightarrow>
                 (case executeCommand sys command input' (s'\<lparr>strtok_saved := saved\<rparr>) of
                    Fault f \<Rightarrow> Fault f
                  | Exits status s'' \<Rightarrow> Exits status s''
                  | Returns _ s'' \<Rightarrow> Returns Continue s''))
      | Returns None s' \<Rightarrow> Returns Break s')"

section \<open>The specification's reading of a line\<close>

text \<open>
  The separators of a line are the space and the newline (the specification's "runs of
  space and newline characters"); every other character, a tab included, belongs to a
  token.
\<close>

definition is_sep :: "char \<Rightarrow> bool" where
  "is_sep c = (c = CHR '' '' \<or> c = CHR ''\<newline>'')"

text \<open>
  The tokens of a line, defined without \<^verbatim>\<open>strtok\<close>: the line is cut at every separator
  and the empty pieces are dropped.
\<close>

fun split_fields :: "(char \<Rightarrow> bool) \<Rightarrow> string \<Rightarrow> string list" where
  "split_fields P [] = [[]]"
| "split_fields P (c # cs) =
     (if P c then [] # split_fields P cs
      else (case split_fields P cs of [] \<Rightarrow> [[c]] | w # ws \<Rightarrow> (c # w) # ws))"

definition tokens :: "string \<Rightarrow> string list" where
  "tokens s = filter (\<lambda>w. w \<noteq> []) (split_fields is_sep s)"

text \<open>The Command of the specification's data model.\<close>

record Command =
  arguments :: "string list"
  input_redirect :: "string option"
  output_redirect :: "string option"

definition empty_Command :: Command where
  "empty_Command = \<lparr>arguments = [], input_redirect = None, output_redirect = None\<rparr>"

text \<open>
  The parser in the specification's words: the tokens are consumed one at a time; a
  token \<^verbatim>\<open><\<close> consumes the next token as \<open>input_redirect\<close> (missing if none follows), a
  token \<^verbatim>\<open>>\<close> consumes the next token as \<open>output_redirect\<close> (missing if none
  follows), and every other token is appended to \<open>arguments\<close>.
\<close>

fun spec_parse :: "string list \<Rightarrow> Command \<Rightarrow> Command" where
  "spec_parse [] c = c"
| "spec_parse [t] c =
     (if t = ''<'' then c\<lparr>input_redirect := None\<rparr>
      else if t = ''>'' then c\<lparr>output_redirect := None\<rparr>
      else c\<lparr>arguments := arguments c @ [t]\<rparr>)"
| "spec_parse (t # p # ts) c =
     (if t = ''<'' then spec_parse ts (c\<lparr>input_redirect := Some p\<rparr>)
      else if t = ''>'' then spec_parse ts (c\<lparr>output_redirect := Some p\<rparr>)
      else spec_parse (p # ts) (c\<lparr>arguments := arguments c @ [t]\<rparr>))"

text \<open>
  A redirect field read as an optional path: the null pointer is the missing one, a
  pointer gives the string it points to in the buffer, and a field that was never
  assigned has no defined value. The Command that a \<^verbatim>\<open>struct ShellCommand\<close> holds is
  read from the buffer its pointers point into.
\<close>

definition read_path :: "string \<Rightarrow> cptr \<Rightarrow> fault + string option" where
  "read_path buf ptr =
     (case ptr of
        Uninit \<Rightarrow> Inl IndeterminateRead
      | Null \<Rightarrow> Inr None
      | Ptr p \<Rightarrow> Inr (Some (c_string buf p)))"

definition Command_of :: "string \<Rightarrow> ShellCommand \<Rightarrow> fault + Command" where
  "Command_of buf command =
     (case argv buf command of
        Inl f \<Rightarrow> Inl f
      | Inr as \<Rightarrow>
          (case read_path buf (inputFile command) of
             Inl f \<Rightarrow> Inl f
           | Inr inp \<Rightarrow>
               (case read_path buf (outputFile command) of
                  Inl f \<Rightarrow> Inl f
                | Inr out \<Rightarrow>
                    Inr \<lparr>arguments = as, input_redirect = inp, output_redirect = out\<rparr>)))"

text \<open>The outcome of \<^verbatim>\<open>parseInput\<close> on a buffer, as a Command.\<close>

definition parsed :: "string \<Rightarrow> nat \<Rightarrow> fault + Command" where
  "parsed buf saved =
     (case parseInput buf saved of
        Inl f \<Rightarrow> Inl f
      | Inr (command, buf', saved') \<Rightarrow> Command_of buf' command)"

text \<open>
  The redirection operators of a token sequence, in order, each with the token that
  follows it: an operator is a token \<^verbatim>\<open><\<close> or \<^verbatim>\<open>>\<close> that is not itself the token
  following an operator. In \<^verbatim>\<open>cat < < a\<close> the second \<^verbatim>\<open><\<close> is the path of the first
  and \<^verbatim>\<open>a\<close> is an argument.
\<close>

fun operators :: "string list \<Rightarrow> (string \<times> string option) list" where
  "operators [] = []"
| "operators [t] = (if t = ''<'' \<or> t = ''>'' then [(t, None)] else [])"
| "operators (t # p # ts) =
     (if t = ''<'' \<or> t = ''>'' then (t, Some p) # operators ts else operators (p # ts))"

text \<open>The tokens that follow the occurrences of one operator, in order.\<close>

definition paths_of :: "string \<Rightarrow> string list \<Rightarrow> string option list" where
  "paths_of operator ts = map snd (filter (\<lambda>r. fst r = operator) (operators ts))"

text \<open>
  A token sequence that holds redirections only: operators, each followed by its path,
  the last one possibly without a path.
\<close>

fun redirects_only :: "string list \<Rightarrow> bool" where
  "redirects_only [] = True"
| "redirects_only [t] = (t = ''<'' \<or> t = ''>'')"
| "redirects_only (t # p # ts) = ((t = ''<'' \<or> t = ''>'') \<and> redirects_only ts)"

text \<open>
  Two readings that follow the words of the claims, for comparison with the parser.
  Whitespace in the usual sense, the characters of \<^verbatim>\<open>isspace\<close>: space, tab, newline,
  vertical tab, form feed and carriage return; and the pieces of a line between
  whitespace.
\<close>

definition is_whitespace :: "char \<Rightarrow> bool" where
  "is_whitespace c =
     (c \<in> set [CHR '' '', CHR 0x09, CHR ''\<newline>'', CHR 0x0B, CHR 0x0C, CHR 0x0D])"

definition whitespace_tokens :: "string \<Rightarrow> string list" where
  "whitespace_tokens s = filter (\<lambda>w. w \<noteq> []) (split_fields is_whitespace s)"

text \<open>
  The tokens that follow the occurrences of a token, every occurrence counted, whether
  the parser takes it for an operator or for a path.
\<close>

fun tokens_after :: "string \<Rightarrow> string list \<Rightarrow> string option list" where
  "tokens_after t [] = []"
| "tokens_after t [u] = (if u = t then [None] else [])"
| "tokens_after t (u # v # ts) =
     (if u = t then Some v # tokens_after t (v # ts) else tokens_after t (v # ts))"

section \<open>An example environment\<close>

text \<open>
  One operating system and one interpreter state, for the closed instances of the
  theorems below: \<^verbatim>\<open>chdir\<close> fails on \<^verbatim>\<open>/nonexistent\<close>, \<^verbatim>\<open>open\<close> on
  \<^verbatim>\<open>missing.txt\<close>, \<^verbatim>\<open>execvp\<close> on \<^verbatim>\<open>nosuchprogram\<close>, each with \<^verbatim>\<open>errno\<close> 2; every
  other call succeeds.
\<close>

definition example_os :: os where
  "example_os =
     \<lparr>os_getcwd = (\<lambda>dir. None),
      os_malloc = (\<lambda>s. None),
      os_chdir = (\<lambda>dir path. if path = ''/nonexistent'' then Inl 2 else Inr path),
      os_fork = (\<lambda>s. None),
      os_open = (\<lambda>dir path flags. if path = ''missing.txt'' then Inl 2 else Inr 3),
      os_execvp = (\<lambda>file av. if file = ''nosuchprogram'' then Some 2 else None),
      strerror = (\<lambda>errno. if errno = 2 then ''No such file or directory'' else ''Unknown error'')\<rparr>"

definition example_shell :: "string \<Rightarrow> shell" where
  "example_shell input =
     \<lparr>cwd = ''/home'', stdout = [], stderr = [], stdin = input, children = [], strtok_saved = 0\<rparr>"

section \<open>The parser computes the specification's Command\<close>

text \<open>
  The loop of \<^verbatim>\<open>parseInput\<close>, which drives \<^verbatim>\<open>strtok\<close> over a buffer that is written
  to while it is read, is compared with \<open>spec_parse\<close> over the tokens of the line. The
  result is \<open>parseInput_cases\<close>: the Command read from the buffer that the parser
  leaves behind is the one of the specification when the arguments fit the array, and
  the parser stores outside the array otherwise.
\<close>

subsection \<open>Strings in a buffer that is written to\<close>

lemma takeWhile_update_beyond:
  "length (takeWhile P xs) < n \<Longrightarrow> takeWhile P (xs[n := x]) = takeWhile P xs"
proof (induction xs arbitrary: n)
  case (Cons y ys)
  then show ?case by (cases n) (auto split: if_splits)
qed simp

lemma takeWhile_update_cut:
  "n \<le> length (takeWhile P xs) \<Longrightarrow> n < length xs \<Longrightarrow> \<not> P x
     \<Longrightarrow> takeWhile P (xs[n := x]) = take n xs"
proof (induction xs arbitrary: n)
  case (Cons y ys)
  then show ?case by (cases n) (auto split: if_splits)
qed simp

lemma c_string_update_before:
  "e < p \<Longrightarrow> c_string (buf[e := x]) p = c_string buf p"
  by (simp add: c_string_def)

lemma c_string_update_beyond:
  assumes "p + length (c_string buf p) < e"
  shows "c_string (buf[e := x]) p = c_string buf p"
proof -
  from assms have "p \<le> e" and "length (takeWhile (\<lambda>c. c \<noteq> NUL) (drop p buf)) < e - p"
    by (simp_all add: c_string_def)
  then show ?thesis
    by (simp add: c_string_def drop_update_swap takeWhile_update_beyond)
qed

lemma c_string_update_cut:
  assumes "p \<le> e" and "e < p + length (c_string buf p)"
  shows "c_string (buf[e := NUL]) p = take (e - p) (c_string buf p)"
proof -
  let ?xs = "drop p buf"
  from assms have n: "e - p \<le> length (takeWhile (\<lambda>c. c \<noteq> NUL) ?xs)"
    by (simp add: c_string_def)
  moreover from assms have "e - p < length ?xs"
    using length_takeWhile_le [of "\<lambda>c. c \<noteq> NUL" ?xs] by (simp add: c_string_def)
  ultimately have "takeWhile (\<lambda>c. c \<noteq> NUL) (?xs[e - p := NUL]) = take (e - p) ?xs"
    by (intro takeWhile_update_cut) simp_all
  moreover from n have "take (e - p) ?xs = take (e - p) (takeWhile (\<lambda>c. c \<noteq> NUL) ?xs)"
    by (metis takeWhile_eq_take take_take min.absorb1 length_takeWhile_le)
  ultimately show ?thesis
    using assms(1) by (simp add: c_string_def drop_update_swap)
qed

subsection \<open>strtok yields the tokens of the line\<close>

lemma delims_is_sep: "(c \<in> set delims) = is_sep c"
  by (auto simp: delims_def is_sep_def)

lemma split_fields_run:
  "\<forall>c\<in>set w. \<not> P c \<Longrightarrow> P d \<Longrightarrow> split_fields P (w @ d # rest) = w # split_fields P rest"
  by (induction w) auto

lemma split_fields_word: "\<forall>c\<in>set w. \<not> P c \<Longrightarrow> split_fields P w = [w]"
  by (induction w) auto

lemma tokens_Nil: "tokens [] = []"
  by (simp add: tokens_def)

lemma tokens_sep: "is_sep c \<Longrightarrow> tokens (c # cs) = tokens cs"
  by (simp add: tokens_def)

lemma tokens_dropWhile: "tokens (dropWhile is_sep s) = tokens s"
  by (induction s) (auto simp: tokens_sep)

lemma tokens_word: "w \<noteq> [] \<Longrightarrow> \<forall>c\<in>set w. \<not> is_sep c \<Longrightarrow> tokens w = [w]"
  by (simp add: tokens_def split_fields_word)

lemma tokens_word_sep:
  "w \<noteq> [] \<Longrightarrow> \<forall>c\<in>set w. \<not> is_sep c \<Longrightarrow> is_sep d \<Longrightarrow> tokens (w @ d # rest) = w # tokens rest"
  by (simp add: tokens_def split_fields_run)

lemma tokens_scan:
  "tokens s =
     (if dropWhile is_sep s = [] then []
      else takeWhile (\<lambda>c. \<not> is_sep c) (dropWhile is_sep s)
             # tokens (drop 1 (dropWhile (\<lambda>c. \<not> is_sep c) (dropWhile is_sep s))))"
proof -
  define start where "start = dropWhile is_sep s"
  define w where "w = takeWhile (\<lambda>c. \<not> is_sep c) start"
  define rest where "rest = dropWhile (\<lambda>c. \<not> is_sep c) start"
  have toks: "tokens s = tokens start"
    by (simp add: start_def tokens_dropWhile)
  have "tokens start = (if start = [] then [] else w # tokens (drop 1 rest))"
  proof (cases "start = []")
    case True
    then show ?thesis by (simp add: tokens_Nil)
  next
    case False
    then have "\<not> is_sep (hd start)"
      unfolding start_def by (rule hd_dropWhile)
    with False have w_ne: "w \<noteq> []"
      by (cases start) (auto simp: w_def)
    have w_word: "\<forall>c\<in>set w. \<not> is_sep c"
      by (auto simp: w_def dest: set_takeWhileD)
    have split: "start = w @ rest"
      by (simp add: w_def rest_def)
    show ?thesis
    proof (cases rest)
      case Nil
      with split w_ne w_word False show ?thesis
        by (simp add: tokens_word tokens_Nil)
    next
      case (Cons d rest')
      then have "rest \<noteq> []" by simp
      then have "\<not> \<not> is_sep (hd rest)"
        unfolding rest_def by (rule hd_dropWhile)
      with Cons have "is_sep d" by simp
      with split Cons w_ne w_word False show ?thesis
        by (simp add: tokens_word_sep)
    qed
  qed
  then show ?thesis
    by (simp add: toks start_def w_def rest_def)
qed

text \<open>The tokens the loop has still to see: the current one and those behind the saved pointer.\<close>

fun pending :: "cptr \<Rightarrow> string \<Rightarrow> nat \<Rightarrow> string list" where
  "pending (Ptr q) buf saved = c_string buf q # tokens (c_string buf saved)"
| "pending _ buf saved = []"

lemma c_string_no_NUL: "NUL \<notin> set (c_string buf p)"
  by (auto simp: c_string_def dest: set_takeWhileD)

lemma strtok_scan_spec:
  assumes "strtok_scan delims buf p = (token, buf', saved')"
  shows "pending token buf' saved' = tokens (c_string buf p)"
    and "token \<noteq> Uninit"
    and "token = Null \<Longrightarrow> c_string buf' saved' = []"
    and "token = Ptr q \<Longrightarrow> q + length (c_string buf' q) \<le> saved'"
    and "p \<le> saved'"
    and "length buf' = length buf"
    and "\<And>r. r + length (c_string buf r) \<le> p \<Longrightarrow> c_string buf' r = c_string buf r"
proof -
  define s where "s = c_string buf p"
  define k where "k = length (takeWhile is_sep s)"
  define s1 where "s1 = dropWhile is_sep s"
  define m where "m = length (takeWhile (\<lambda>c. \<not> is_sep c) s1)"
  define w where "w = takeWhile (\<lambda>c. \<not> is_sep c) s1"
  define rest where "rest = dropWhile (\<lambda>c. \<not> is_sep c) s1"
  have start: "c_string buf (p + k) = s1"
    unfolding k_def s_def s1_def by (rule c_string_skip)
  have stop: "c_string buf (p + k + m) = rest"
    unfolding m_def rest_def start [symmetric] by (rule c_string_skip)
  have scan: "strtok_scan delims buf p =
      (if s1 = [] then (Null, buf, p + k)
       else if rest = [] then (Ptr (p + k), buf, p + k + m)
       else (Ptr (p + k), buf[p + k + m := NUL], Suc (p + k + m)))"
    unfolding strtok_scan_def Let_def delims_is_sep
    by (simp add: s_def [symmetric] k_def [symmetric] start m_def [symmetric] stop)
  have toks: "tokens s = (if s1 = [] then [] else w # tokens (drop 1 rest))"
    unfolding s1_def w_def rest_def by (rule tokens_scan)
  have split: "s1 = w @ rest" and lw: "length w = m"
    by (simp_all add: w_def rest_def m_def)
  have m_pos: "0 < m" if "s1 \<noteq> []"
  proof -
    from that have "\<not> is_sep (hd s1)"
      unfolding s1_def by (rule hd_dropWhile)
    with that show ?thesis
      by (cases s1) (auto simp: m_def)
  qed
  consider (none) "s1 = []" | (last) "s1 \<noteq> []" "rest = []" | (cut) "s1 \<noteq> []" "rest \<noteq> []"
    by blast
  then have all: "pending token buf' saved' = tokens s \<and> token \<noteq> Uninit
      \<and> (token = Null \<longrightarrow> c_string buf' saved' = [])
      \<and> (token = Ptr q \<longrightarrow> q + length (c_string buf' q) \<le> saved')
      \<and> p \<le> saved' \<and> length buf' = length buf
      \<and> (\<forall>r. r + length (c_string buf r) \<le> p \<longrightarrow> c_string buf' r = c_string buf r)"
  proof cases
    case none
    with assms scan have "token = Null" "buf' = buf" "saved' = p + k"
      by simp_all
    with none show ?thesis
      by (simp add: toks start)
  next
    case last
    with assms scan have res: "token = Ptr (p + k)" "buf' = buf" "saved' = p + k + m"
      by simp_all
    from last split have "s1 = w" by simp
    with last res lw show ?thesis
      by (auto simp: toks start stop tokens_Nil)
  next
    case cut
    with assms scan have res: "token = Ptr (p + k)" "buf' = buf[p + k + m := NUL]"
      "saved' = Suc (p + k + m)"
      by simp_all
    from cut split lw have inside: "p + k + m < p + k + length (c_string buf (p + k))"
      by (simp add: start)
    then have tok: "c_string buf' (p + k) = w"
      using split lw by (simp add: res c_string_update_cut start)
    have "c_string buf' saved' = c_string buf (p + k + m + 1)"
      by (simp add: res c_string_update_before)
    also have "\<dots> = drop 1 rest"
      unfolding stop [symmetric] using cut by (intro c_string_add) (simp add: stop Suc_leI)
    finally have rest: "c_string buf' saved' = drop 1 rest" .
    have frame: "c_string buf' r = c_string buf r" if "r + length (c_string buf r) \<le> p" for r
    proof -
      from that m_pos [OF cut(1)] have "r + length (c_string buf r) < p + k + m"
        by simp
      then show ?thesis
        unfolding res by (rule c_string_update_beyond)
    qed
    from cut res tok rest lw frame show ?thesis
      by (auto simp: toks)
  qed
  from all show "pending token buf' saved' = tokens (c_string buf p)"
    by (simp add: s_def)
  from all show "token \<noteq> Uninit" by simp
  from all show "token = Null \<Longrightarrow> c_string buf' saved' = []" by simp
  from all show "token = Ptr q \<Longrightarrow> q + length (c_string buf' q) \<le> saved'" by simp
  from all show "p \<le> saved'" by simp
  from all show "length buf' = length buf" by simp
  from all show "\<And>r. r + length (c_string buf r) \<le> p \<Longrightarrow> c_string buf' r = c_string buf r"
    by simp
qed

subsection \<open>The loop computes the specification's Command\<close>

text \<open>The string a token of \<^verbatim>\<open>strtok\<close> stands for; the null pointer stands for none.\<close>

definition string_of :: "string \<Rightarrow> cptr \<Rightarrow> string option" where
  "string_of buf ptr = (case ptr of Ptr p \<Rightarrow> Some (c_string buf p) | _ \<Rightarrow> None)"

text \<open>
  A pointer holds an optional string when it is null for the missing one, or points to
  the string in the buffer and the string ends at or before the saved pointer of
  \<^verbatim>\<open>strtok\<close>: later calls write behind that pointer only.
\<close>

definition holds :: "string \<Rightarrow> nat \<Rightarrow> cptr \<Rightarrow> string option \<Rightarrow> bool" where
  "holds buf saved ptr v =
     (case ptr of
        Uninit \<Rightarrow> False
      | Null \<Rightarrow> v = None
      | Ptr q \<Rightarrow> v = Some (c_string buf q) \<and> q + length (c_string buf q) \<le> saved)"

definition represents :: "string \<Rightarrow> nat \<Rightarrow> ShellCommand \<Rightarrow> Command \<Rightarrow> bool" where
  "represents buf saved command c =
     (length (args command) = MAX_ARGS \<and> length (arguments c) \<le> MAX_ARGS
      \<and> list_all2 (\<lambda>ptr a. holds buf saved ptr (Some a))
           (take (length (arguments c)) (args command)) (arguments c)
      \<and> holds buf saved (inputFile command) (input_redirect c)
      \<and> holds buf saved (outputFile command) (output_redirect c))"

lemma holds_step:
  assumes "holds buf saved ptr v" and "strtok Null delims buf saved = (token, buf', saved')"
  shows "holds buf' saved' ptr v"
proof -
  from assms(2) have scan: "strtok_scan delims buf saved = (token, buf', saved')"
    by (simp add: strtok_def)
  show ?thesis
  proof (cases ptr)
    case (Ptr q)
    with assms(1) have v: "v = Some (c_string buf q)" and fin: "q + length (c_string buf q) \<le> saved"
      by (simp_all add: holds_def)
    from fin have "c_string buf' q = c_string buf q"
      by (rule strtok_scan_spec(7) [OF scan])
    moreover have "saved \<le> saved'"
      by (rule strtok_scan_spec(5) [OF scan])
    ultimately show ?thesis
      using Ptr v fin by (simp add: holds_def)
  qed (insert assms(1), simp_all add: holds_def)
qed

lemma represents_step:
  assumes "represents buf saved command c" and "strtok Null delims buf saved = (token, buf', saved')"
  shows "represents buf' saved' command c"
proof -
  have "holds buf' saved' ptr v" if "holds buf saved ptr v" for ptr v
    using that assms(2) by (rule holds_step)
  with assms(1) show ?thesis
    unfolding represents_def by (auto elim!: list_all2_mono)
qed

lemma strtok_token_holds:
  assumes "strtok Null delims buf saved = (token, buf', saved')"
  shows "holds buf' saved' token (string_of buf' token)"
proof -
  from assms have scan: "strtok_scan delims buf saved = (token, buf', saved')"
    by (simp add: strtok_def)
  show ?thesis
    using strtok_scan_spec(2,4) [OF scan]
    by (cases token) (simp_all add: holds_def string_of_def)
qed

lemma strtok_pending:
  assumes "strtok Null delims buf saved = (token, buf', saved')"
  shows "pending token buf' saved' = tokens (c_string buf saved)" and "token \<noteq> Uninit"
    and "token = Null \<Longrightarrow> c_string buf' saved' = []"
proof -
  from assms have scan: "strtok_scan delims buf saved = (token, buf', saved')"
    by (simp add: strtok_def)
  show "pending token buf' saved' = tokens (c_string buf saved)" "token \<noteq> Uninit"
    "token = Null \<Longrightarrow> c_string buf' saved' = []"
    by (rule strtok_scan_spec [OF scan])+
qed

lemma represents_input:
  "represents buf saved command c \<Longrightarrow> holds buf saved path v
     \<Longrightarrow> represents buf saved (command\<lparr>inputFile := path\<rparr>) (c\<lparr>input_redirect := v\<rparr>)"
  by (simp add: represents_def)

lemma represents_output:
  "represents buf saved command c \<Longrightarrow> holds buf saved path v
     \<Longrightarrow> represents buf saved (command\<lparr>outputFile := path\<rparr>) (c\<lparr>output_redirect := v\<rparr>)"
  by (simp add: represents_def)

lemma represents_store:
  assumes "represents buf saved command c" and "length (arguments c) < MAX_ARGS"
    and "holds buf saved ptr (Some t)"
  shows "represents buf saved (command\<lparr>args := (args command)[length (arguments c) := ptr]\<rparr>)
           (c\<lparr>arguments := arguments c @ [t]\<rparr>)"
proof -
  let ?n = "length (arguments c)"
  from assms(1,2) have n: "?n < length (args command)"
    by (simp add: represents_def)
  then have "take (Suc ?n) ((args command)[?n := ptr]) = take ?n (args command) @ [ptr]"
    by (simp add: take_Suc_conv_app_nth)
  with assms show ?thesis
    by (simp add: represents_def list_all2_appendI)
qed

lemma pending_Nil: "pending token buf saved = [] \<Longrightarrow> token \<noteq> Uninit \<Longrightarrow> token = Null"
  by (cases token) auto

lemma pending_Cons:
  "pending token buf saved = t # ts
     \<Longrightarrow> \<exists>q. token = Ptr q \<and> c_string buf q = t \<and> tokens (c_string buf saved) = ts"
  by (cases token) auto

lemma spec_parse_arguments_mono: "length (arguments c) \<le> length (arguments (spec_parse ts c))"
proof (induction ts c rule: spec_parse.induct)
  case (3 t p ts c)
  then show ?case by (auto simp: Suc_leD)
qed auto

lemma parse_loop_represents:
  assumes "pending token buf saved = ts" and "token \<noteq> Uninit"
    and "holds buf saved token (string_of buf token)"
    and "represents buf saved command c"
  shows "if length (arguments (spec_parse ts c)) \<le> MAX_ARGS
         then \<exists>command' buf' saved'.
                parse_loop token buf saved (length (arguments c)) command
                  = Inr (length (arguments (spec_parse ts c)), command', buf', saved')
                \<and> represents buf' saved' command' (spec_parse ts c)
         else parse_loop token buf saved (length (arguments c)) command
                = Inl (OutOfBounds MAX_ARGS)"
  using assms
proof (induction ts c arbitrary: token buf saved command rule: spec_parse.induct)
  case (1 c)
  then have "token = Null"
    by (auto dest: pending_Nil)
  with 1 show ?case
    by (simp add: represents_def)
next
  case (2 t c)
  from "2.prems"(1) obtain q where token: "token = Ptr q" and t: "c_string buf q = t"
    and toks: "tokens (c_string buf saved) = []"
    by (auto dest: pending_Cons)
  from "2.prems"(3) token t have tok_holds: "holds buf saved (Ptr q) (Some t)"
    by (simp add: string_of_def)
  obtain t1 b1 s1 where r1: "strtok Null delims buf saved = (t1, b1, s1)"
    by (cases "strtok Null delims buf saved") auto
  from strtok_pending [OF r1] toks have t1: "t1 = Null" and e1: "c_string b1 s1 = []"
    by (auto dest: pending_Nil)
  obtain t2 b2 s2 where r2: "strtok Null delims b1 s1 = (t2, b2, s2)"
    by (cases "strtok Null delims b1 s1") auto
  from strtok_pending [OF r2] e1 have t2: "t2 = Null"
    by (auto dest: pending_Nil simp: tokens_Nil)
  have bound: "length (arguments c) \<le> MAX_ARGS"
    using "2.prems"(4) by (simp add: represents_def)
  consider (inp) "t = ''<''" | (out) "t \<noteq> ''<''" "t = ''>''" | (arg) "t \<noteq> ''<''" "t \<noteq> ''>''"
    by blast
  then show ?case
  proof cases
    case inp
    have "represents b1 s1 command c"
      using "2.prems"(4) r1 by (rule represents_step)
    then have "represents b1 s1 (command\<lparr>inputFile := Null\<rparr>) (c\<lparr>input_redirect := None\<rparr>)"
      by (rule represents_input) (simp add: holds_def)
    then have "represents b2 s2 (command\<lparr>inputFile := Null\<rparr>) (c\<lparr>input_redirect := None\<rparr>)"
      using r2 by (rule represents_step)
    with inp bound show ?thesis
      by (simp add: token t r1 t1 r2 t2)
  next
    case out
    have "represents b1 s1 command c"
      using "2.prems"(4) r1 by (rule represents_step)
    then have "represents b1 s1 (command\<lparr>outputFile := Null\<rparr>) (c\<lparr>output_redirect := None\<rparr>)"
      by (rule represents_output) (simp add: holds_def)
    then have "represents b2 s2 (command\<lparr>outputFile := Null\<rparr>) (c\<lparr>output_redirect := None\<rparr>)"
      using r2 by (rule represents_step)
    with out bound show ?thesis
      by (simp add: token t r1 t1 r2 t2)
  next
    case arg
    show ?thesis
    proof (cases "length (arguments c) < MAX_ARGS")
      case True
      have "represents buf saved (command\<lparr>args := (args command)[length (arguments c) := Ptr q]\<rparr>)
              (c\<lparr>arguments := arguments c @ [t]\<rparr>)"
        using "2.prems"(4) True tok_holds by (rule represents_store)
      then have "represents b1 s1 (command\<lparr>args := (args command)[length (arguments c) := Ptr q]\<rparr>)
              (c\<lparr>arguments := arguments c @ [t]\<rparr>)"
        using r1 by (rule represents_step)
      with arg True show ?thesis
        by (simp add: token t r1 t1 Suc_leI)
    next
      case False
      with arg bound show ?thesis
        by (simp add: token t)
    qed
  qed
next
  case (3 t p ts c)
  from "3.prems"(1) obtain q where token: "token = Ptr q" and t: "c_string buf q = t"
    and toks: "tokens (c_string buf saved) = p # ts"
    by (auto dest: pending_Cons)
  from "3.prems"(3) token t have tok_holds: "holds buf saved (Ptr q) (Some t)"
    by (simp add: string_of_def)
  obtain t1 b1 s1 where r1: "strtok Null delims buf saved = (t1, b1, s1)"
    by (cases "strtok Null delims buf saved") auto
  note p1 = strtok_pending(1,2) [OF r1]
  from p1(1) toks obtain q1 where t1: "t1 = Ptr q1" and path: "c_string b1 q1 = p"
    and toks1: "tokens (c_string b1 s1) = ts"
    by (auto dest: pending_Cons)
  have h1: "holds b1 s1 t1 (string_of b1 t1)"
    using r1 by (rule strtok_token_holds)
  have bound: "length (arguments c) \<le> MAX_ARGS"
    using "3.prems"(4) by (simp add: represents_def)
  consider (inp) "t = ''<''" | (out) "t \<noteq> ''<''" "t = ''>''" | (arg) "t \<noteq> ''<''" "t \<noteq> ''>''"
    by blast
  then show ?case
  proof cases
    case inp
    obtain t2 b2 s2 where r2: "strtok Null delims b1 s1 = (t2, b2, s2)"
      by (cases "strtok Null delims b1 s1") auto
    have rep: "represents b2 s2 (command\<lparr>inputFile := t1\<rparr>) (c\<lparr>input_redirect := Some p\<rparr>)"
    proof (rule represents_step [OF _ r2], rule represents_input)
      show "represents b1 s1 command c"
        using "3.prems"(4) r1 by (rule represents_step)
      show "holds b1 s1 t1 (Some p)"
        using h1 by (simp add: t1 path string_of_def)
    qed
    have "if length (arguments (spec_parse ts (c\<lparr>input_redirect := Some p\<rparr>))) \<le> MAX_ARGS
          then \<exists>command' buf' saved'.
                 parse_loop t2 b2 s2 (length (arguments (c\<lparr>input_redirect := Some p\<rparr>)))
                     (command\<lparr>inputFile := t1\<rparr>)
                   = Inr (length (arguments (spec_parse ts (c\<lparr>input_redirect := Some p\<rparr>))),
                          command', buf', saved')
                 \<and> represents buf' saved' command' (spec_parse ts (c\<lparr>input_redirect := Some p\<rparr>))
          else parse_loop t2 b2 s2 (length (arguments (c\<lparr>input_redirect := Some p\<rparr>)))
                 (command\<lparr>inputFile := t1\<rparr>)
                 = Inl (OutOfBounds MAX_ARGS)"
    proof (rule "3.IH"(1) [OF inp _ _ _ rep])
      show "pending t2 b2 s2 = ts"
        using strtok_pending(1) [OF r2] toks1 by simp
      show "t2 \<noteq> Uninit"
        by (rule strtok_pending(2) [OF r2])
      show "holds b2 s2 t2 (string_of b2 t2)"
        using r2 by (rule strtok_token_holds)
    qed
    with inp show ?thesis
      by (simp add: token t r1 r2 split: if_splits)
  next
    case out
    obtain t2 b2 s2 where r2: "strtok Null delims b1 s1 = (t2, b2, s2)"
      by (cases "strtok Null delims b1 s1") auto
    have rep: "represents b2 s2 (command\<lparr>outputFile := t1\<rparr>) (c\<lparr>output_redirect := Some p\<rparr>)"
    proof (rule represents_step [OF _ r2], rule represents_output)
      show "represents b1 s1 command c"
        using "3.prems"(4) r1 by (rule represents_step)
      show "holds b1 s1 t1 (Some p)"
        using h1 by (simp add: t1 path string_of_def)
    qed
    have "if length (arguments (spec_parse ts (c\<lparr>output_redirect := Some p\<rparr>))) \<le> MAX_ARGS
          then \<exists>command' buf' saved'.
                 parse_loop t2 b2 s2 (length (arguments (c\<lparr>output_redirect := Some p\<rparr>)))
                     (command\<lparr>outputFile := t1\<rparr>)
                   = Inr (length (arguments (spec_parse ts (c\<lparr>output_redirect := Some p\<rparr>))),
                          command', buf', saved')
                 \<and> represents buf' saved' command' (spec_parse ts (c\<lparr>output_redirect := Some p\<rparr>))
          else parse_loop t2 b2 s2 (length (arguments (c\<lparr>output_redirect := Some p\<rparr>)))
                 (command\<lparr>outputFile := t1\<rparr>)
                 = Inl (OutOfBounds MAX_ARGS)"
    proof (rule "3.IH"(2) [OF out _ _ _ rep])
      show "pending t2 b2 s2 = ts"
        using strtok_pending(1) [OF r2] toks1 by simp
      show "t2 \<noteq> Uninit"
        by (rule strtok_pending(2) [OF r2])
      show "holds b2 s2 t2 (string_of b2 t2)"
        using r2 by (rule strtok_token_holds)
    qed
    with out show ?thesis
      by (simp add: token t r1 r2 split: if_splits)
  next
    case arg
    show ?thesis
    proof (cases "length (arguments c) < MAX_ARGS")
      case True
      have rep: "represents b1 s1 (command\<lparr>args := (args command)[length (arguments c) := Ptr q]\<rparr>)
              (c\<lparr>arguments := arguments c @ [t]\<rparr>)"
      proof (rule represents_step [OF _ r1])
        show "represents buf saved (command\<lparr>args := (args command)[length (arguments c) := Ptr q]\<rparr>)
              (c\<lparr>arguments := arguments c @ [t]\<rparr>)"
          using "3.prems"(4) True tok_holds by (rule represents_store)
      qed
      have "if length (arguments (spec_parse (p # ts) (c\<lparr>arguments := arguments c @ [t]\<rparr>))) \<le> MAX_ARGS
            then \<exists>command' buf' saved'.
                   parse_loop t1 b1 s1 (length (arguments (c\<lparr>arguments := arguments c @ [t]\<rparr>)))
                       (command\<lparr>args := (args command)[length (arguments c) := Ptr q]\<rparr>)
                     = Inr (length (arguments (spec_parse (p # ts) (c\<lparr>arguments := arguments c @ [t]\<rparr>))),
                            command', buf', saved')
                   \<and> represents buf' saved' command'
                       (spec_parse (p # ts) (c\<lparr>arguments := arguments c @ [t]\<rparr>))
            else parse_loop t1 b1 s1 (length (arguments (c\<lparr>arguments := arguments c @ [t]\<rparr>)))
                   (command\<lparr>args := (args command)[length (arguments c) := Ptr q]\<rparr>)
                   = Inl (OutOfBounds MAX_ARGS)"
      proof (rule "3.IH"(3) [OF arg _ _ _ rep])
        show "pending t1 b1 s1 = p # ts"
          using p1(1) toks by simp
        show "t1 \<noteq> Uninit"
          by (rule p1(2))
        show "holds b1 s1 t1 (string_of b1 t1)"
          by (rule h1)
      qed
      with arg True show ?thesis
        by (simp add: token t r1 split: if_splits)
    next
      case False
      with bound have full: "length (arguments c) = MAX_ARGS" by simp
      have "length (arguments (c\<lparr>arguments := arguments c @ [t]\<rparr>))
              \<le> length (arguments (spec_parse (p # ts) (c\<lparr>arguments := arguments c @ [t]\<rparr>)))"
        by (rule spec_parse_arguments_mono)
      with full have "\<not> length (arguments (spec_parse (p # ts) (c\<lparr>arguments := arguments c @ [t]\<rparr>))) \<le> MAX_ARGS"
        by simp
      then show ?thesis
        using arg False full by (simp add: token t)
    qed
  qed
qed

lemma read_argv_holds:
  "list_all2 (\<lambda>ptr a. holds buf saved ptr (Some a)) ptrs as
     \<Longrightarrow> read_argv buf (ptrs @ Null # cells) k = Inr as"
proof (induction ptrs as arbitrary: k rule: list_all2_induct)
  case Nil
  show ?case by simp
next
  case (Cons ptr ptrs a as)
  then show ?case
    by (cases ptr) (simp_all add: holds_def)
qed

lemma holds_read_path: "holds buf saved ptr v \<Longrightarrow> read_path buf ptr = Inr v \<and> ptr \<noteq> Uninit"
  by (cases ptr) (simp_all add: holds_def read_path_def)

lemma represents_terminated:
  assumes "represents buf saved command c" and "length (arguments c) < MAX_ARGS"
  shows "Command_of buf (command\<lparr>args := (args command)[length (arguments c) := Null]\<rparr>) = Inr c"
    and "inputFile command \<noteq> Uninit" and "outputFile command \<noteq> Uninit"
proof -
  let ?n = "length (arguments c)"
  from assms have n: "?n < length (args command)"
    by (simp add: represents_def)
  then have cells: "(args command)[?n := Null]
      = take ?n (args command) @ Null # drop (Suc ?n) (args command)"
    by (rule upd_conv_take_nth_drop)
  from assms(1) have "list_all2 (\<lambda>ptr a. holds buf saved ptr (Some a))
      (take ?n (args command)) (arguments c)"
    by (simp add: represents_def)
  then have av: "read_argv buf ((args command)[?n := Null]) 0 = Inr (arguments c)"
    unfolding cells by (rule read_argv_holds)
  from assms(1) have fields: "read_path buf (inputFile command) = Inr (input_redirect c)"
    "read_path buf (outputFile command) = Inr (output_redirect c)"
    "inputFile command \<noteq> Uninit" "outputFile command \<noteq> Uninit"
    by (auto simp: represents_def dest: holds_read_path)
  from fields show "inputFile command \<noteq> Uninit" "outputFile command \<noteq> Uninit"
    by simp_all
  from av fields show "Command_of buf (command\<lparr>args := (args command)[?n := Null]\<rparr>) = Inr c"
    by (simp add: Command_of_def argv_def)
qed

lemma parseInput_cases:
  "if length (arguments (spec_parse (tokens (c_string buf 0)) empty_Command)) < MAX_ARGS
   then \<exists>command buf' saved'.
          parseInput buf saved = Inr (command, buf', saved')
          \<and> Command_of buf' command = Inr (spec_parse (tokens (c_string buf 0)) empty_Command)
          \<and> inputFile command \<noteq> Uninit \<and> outputFile command \<noteq> Uninit
   else parseInput buf saved = Inl (OutOfBounds MAX_ARGS)"
proof -
  let ?c = "spec_parse (tokens (c_string buf 0)) empty_Command"
  let ?command0 = "\<lparr>args = replicate MAX_ARGS Uninit, inputFile = Null, outputFile = Null\<rparr>"
  obtain token buf0 saved0 where first: "strtok (Ptr 0) delims buf saved = (token, buf0, saved0)"
    by (cases "strtok (Ptr 0) delims buf saved") auto
  then have scan: "strtok_scan delims buf 0 = (token, buf0, saved0)"
    by (simp add: strtok_def)
  have rep0: "represents buf0 saved0 ?command0 empty_Command"
    by (simp add: represents_def empty_Command_def holds_def)
  have tok: "holds buf0 saved0 token (string_of buf0 token)"
    using strtok_scan_spec(2,4) [OF scan]
    by (cases token) (simp_all add: holds_def string_of_def)
  have loop: "if length (arguments (spec_parse (tokens (c_string buf 0)) empty_Command)) \<le> MAX_ARGS
      then \<exists>command' buf' saved'.
             parse_loop token buf0 saved0 (length (arguments empty_Command)) ?command0
               = Inr (length (arguments ?c), command', buf', saved')
             \<and> represents buf' saved' command' ?c
      else parse_loop token buf0 saved0 (length (arguments empty_Command)) ?command0
             = Inl (OutOfBounds MAX_ARGS)"
    using strtok_scan_spec(1,2) [OF scan] tok rep0 by (intro parse_loop_represents)
  have zero: "length (arguments empty_Command) = 0"
    by (simp add: empty_Command_def)
  consider (fits) "length (arguments ?c) < MAX_ARGS" | (full) "length (arguments ?c) = MAX_ARGS"
    | (over) "MAX_ARGS < length (arguments ?c)"
    by linarith
  then show ?thesis
  proof cases
    case fits
    with loop obtain command' buf' saved' where
      run: "parse_loop token buf0 saved0 0 ?command0 = Inr (length (arguments ?c), command', buf', saved')"
      and rep: "represents buf' saved' command' ?c"
      by (auto simp: zero split: if_splits)
    from represents_terminated [OF rep fits] fits run first show ?thesis
      by (simp add: parseInput_def)
  next
    case full
    with loop obtain command' buf' saved' where
      "parse_loop token buf0 saved0 0 ?command0 = Inr (length (arguments ?c), command', buf', saved')"
      by (auto simp: zero split: if_splits)
    with full first show ?thesis
      by (simp add: parseInput_def)
  next
    case over
    with loop have "parse_loop token buf0 saved0 0 ?command0 = Inl (OutOfBounds MAX_ARGS)"
      by (auto simp: zero split: if_splits)
    with over first show ?thesis
      by (simp add: parseInput_def)
  qed
qed

lemma parseInput_InrI:
  assumes "length (arguments (spec_parse (tokens (c_string buf 0)) empty_Command)) < MAX_ARGS"
  obtains command buf' saved' where "parseInput buf saved = Inr (command, buf', saved')"
  using assms parseInput_cases [of buf saved] by auto

lemma parseInput_InrD:
  assumes "parseInput buf saved = Inr (command, buf', saved')"
  shows "length (arguments (spec_parse (tokens (c_string buf 0)) empty_Command)) < MAX_ARGS"
    and "Command_of buf' command = Inr (spec_parse (tokens (c_string buf 0)) empty_Command)"
    and "inputFile command \<noteq> Uninit" and "outputFile command \<noteq> Uninit"
  using assms parseInput_cases [of buf saved] by (auto split: if_splits)

lemma parseInput_faults_iff:
  "(parseInput buf saved = Inl f)
     = (f = OutOfBounds MAX_ARGS
        \<and> MAX_ARGS \<le> length (arguments (spec_parse (tokens (c_string buf 0)) empty_Command)))"
  using parseInput_cases [of buf saved] by (auto split: if_splits)


lemma Command_of_InrD:
  assumes "Command_of buf command = Inr c"
  shows "argv buf command = Inr (arguments c)"
    and "read_path buf (inputFile command) = Inr (input_redirect c)"
    and "read_path buf (outputFile command) = Inr (output_redirect c)"
  using assms by (auto simp: Command_of_def split: sum.splits)

section \<open>Properties of the specification's parser and of the executor\<close>

lemma MAX_ARGS_pos: "0 < MAX_ARGS"
  by (simp add: MAX_ARGS_def)

lemma spec_parse_input:
  "input_redirect (spec_parse ts c) =
     (if paths_of ''<'' ts = [] then input_redirect c else last (paths_of ''<'' ts))"
  by (induction ts c rule: spec_parse.induct) (auto simp: paths_of_def)

lemma spec_parse_output:
  "output_redirect (spec_parse ts c) =
     (if paths_of ''>'' ts = [] then output_redirect c else last (paths_of ''>'' ts))"
  by (induction ts c rule: spec_parse.induct) (auto simp: paths_of_def)

lemma spec_parse_redirects_only:
  "redirects_only ts = (arguments (spec_parse ts c) = arguments c)"
proof (induction ts c rule: spec_parse.induct)
  case (3 t p ts c)
  have "length (arguments (c\<lparr>arguments := arguments c @ [t]\<rparr>))
          \<le> length (arguments (spec_parse (p # ts) (c\<lparr>arguments := arguments c @ [t]\<rparr>)))"
    by (rule spec_parse_arguments_mono)
  then have "arguments (spec_parse (p # ts) (c\<lparr>arguments := arguments c @ [t]\<rparr>)) \<noteq> arguments c"
    by auto
  with 3 show ?case by auto
qed auto

lemma split_fields_not_Nil: "split_fields P s \<noteq> []"
  by (induction s) (auto split: list.splits)

lemma tokens_blank: "(tokens s = []) = (\<forall>c\<in>set s. is_sep c)"
proof (induction s)
  case Nil
  show ?case by (simp add: tokens_Nil)
next
  case (Cons c cs)
  show ?case
  proof (cases "is_sep c")
    case True
    with Cons show ?thesis by (simp add: tokens_sep)
  next
    case False
    then have "tokens (c # cs) \<noteq> []"
      by (auto simp: tokens_def split: list.splits)
    with False show ?thesis by auto
  qed
qed

lemma last_filter_keep:
  "xs \<noteq> [] \<Longrightarrow> P (last xs) \<Longrightarrow> filter P xs \<noteq> [] \<and> last (filter P xs) = last xs"
  by (induction xs) (auto split: if_splits)

lemma paths_of_last:
  assumes "operators ts \<noteq> []" and "last (operators ts) = (operator, path)"
  shows "paths_of operator ts \<noteq> []" and "last (paths_of operator ts) = path"
proof -
  have keep: "filter (\<lambda>r. fst r = operator) (operators ts) \<noteq> []
      \<and> last (filter (\<lambda>r. fst r = operator) (operators ts)) = last (operators ts)"
    using assms by (intro last_filter_keep) auto
  then show "paths_of operator ts \<noteq> []"
    by (simp add: paths_of_def)
  from keep assms show "last (paths_of operator ts) = path"
    by (simp add: paths_of_def last_map)
qed

lemma spec_parse_subseq: "\<exists>as. arguments (spec_parse ts c) = arguments c @ as \<and> subseq as ts"
proof (induction ts c rule: spec_parse.induct)
  case (3 t p ts c)
  show ?case
  proof (cases "t = ''<'' \<or> t = ''>''")
    case True
    with 3 obtain as where "arguments (spec_parse (t # p # ts) c) = arguments c @ as" "subseq as ts"
      by auto
    then show ?thesis
      by (blast intro: list_emb_Cons)
  next
    case False
    with 3 obtain as where as: "arguments (spec_parse (p # ts) (c\<lparr>arguments := arguments c @ [t]\<rparr>))
        = (arguments c @ [t]) @ as" "subseq as (p # ts)"
      by auto
    with False have "arguments (spec_parse (t # p # ts) c) = arguments c @ (t # as)"
      by simp
    moreover from as have "subseq (t # as) (t # p # ts)"
      by simp
    ultimately show ?thesis by blast
  qed
qed auto

lemma spec_parse_partition:
  "length (arguments (spec_parse ts c)) + length (operators ts)
     + length (filter (\<lambda>r. snd r \<noteq> None) (operators ts))
   = length (arguments c) + length ts"
  by (induction ts c rule: spec_parse.induct) auto

lemma read_argv_Inr_Nil: "read_argv buf cells k = Inr [] \<Longrightarrow> \<exists>rest. cells = Null # rest"
  by (cases "(buf, cells, k)" rule: read_argv.cases) (auto split: sum.splits)

lemma read_argv_Inr_Cons:
  "read_argv buf cells k = Inr (a # as)
     \<Longrightarrow> \<exists>p rest. cells = Ptr p # rest \<and> c_string buf p = a \<and> read_argv buf rest (Suc k) = Inr as"
  by (cases "(buf, cells, k)" rule: read_argv.cases) (auto split: sum.splits)

lemma argv_Nil: "argv buf command = Inr [] \<Longrightarrow> read_arg command 0 = Inr Null"
  by (auto simp: argv_def read_arg_def dest: read_argv_Inr_Nil)

lemma argv_Cons:
  "argv buf command = Inr (a # as) \<Longrightarrow> \<exists>p. read_arg command 0 = Inr (Ptr p) \<and> c_string buf p = a"
  by (auto simp: argv_def read_arg_def dest: read_argv_Inr_Cons)

lemma argv_single: "argv buf command = Inr [a] \<Longrightarrow> read_arg command (Suc 0) = Inr Null"
  by (auto simp: argv_def read_arg_def dest!: read_argv_Inr_Cons read_argv_Inr_Nil)

lemma argv_second:
  "argv buf command = Inr (a # b # as)
     \<Longrightarrow> \<exists>p. read_arg command (Suc 0) = Inr (Ptr p) \<and> c_string buf p = b"
  by (auto simp: argv_def read_arg_def dest!: read_argv_Inr_Cons)

lemma child_exec_defined:
  assumes "argv buf command = Inr (a # as)"
  shows "child_exec sys command buf \<noteq> Inl f"
proof -
  from assms obtain p where "read_arg command 0 = Inr (Ptr p)"
    by (auto dest: argv_Cons)
  with assms show ?thesis
    by (simp add: child_exec_def split: option.splits)
qed

lemma child_defined:
  assumes "argv buf command = Inr (a # as)"
    and "inputFile command \<noteq> Uninit" and "outputFile command \<noteq> Uninit"
  shows "child sys command buf s \<noteq> Inl f"
proof -
  have "child_input sys command buf s \<noteq> Inl f" for f
    using assms(2) by (auto simp: child_input_def split: cptr.splits sum.splits)
  moreover have "child_output sys command buf s \<noteq> Inl f" for f
    using assms(3) by (auto simp: child_output_def split: cptr.splits sum.splits)
  moreover have "child_exec sys command buf \<noteq> Inl f" for f
    using assms(1) by (rule child_exec_defined)
  ultimately show ?thesis
    by (auto simp: child_def split: sum.splits prod.splits)
qed

lemma executeCommand_empty:
  "argv buf command = Inr [] \<Longrightarrow> executeCommand sys command buf s = Returns () s"
  by (simp add: executeCommand_def argv_Nil)

lemma executeCommand_defined:
  assumes "argv buf command = Inr as"
    and "inputFile command \<noteq> Uninit" and "outputFile command \<noteq> Uninit"
  shows "executeCommand sys command buf s \<noteq> Fault f"
proof (cases as)
  case Nil
  with assms(1) show ?thesis by (simp add: executeCommand_empty)
next
  case (Cons a as')
  note first = Cons
  have child: "child sys command buf s \<noteq> Inl f" for f
    using assms first child_defined [where command = command and a = a and as = as'] by auto
  from assms(1) first obtain p where p: "read_arg command 0 = Inr (Ptr p)"
    by (auto dest: argv_Cons)
  show ?thesis
  proof (cases as')
    case Nil
    with assms(1) first have "read_arg command (Suc 0) = Inr Null"
      by (simp add: argv_single)
    with child p show ?thesis
      by (auto simp: executeCommand_def split: option.splits sum.splits)
  next
    case (Cons b as'')
    with assms(1) first obtain q where "read_arg command (Suc 0) = Inr (Ptr q)"
      by (auto dest: argv_second)
    with child p show ?thesis
      by (auto simp: executeCommand_def split: option.splits sum.splits)
  qed
qed

lemma read_path_None: "read_path buf ptr = Inr None \<Longrightarrow> ptr = Null"
  by (cases ptr) (simp_all add: read_path_def)

text \<open>
  \<^verbatim>\<open>strtok\<close> cuts the buffer up: after \<^verbatim>\<open>ls -l\<close> has been parsed, the separators behind
  the two tokens are NUL bytes, the pointers of the command read \<^verbatim>\<open>ls\<close> and \<^verbatim>\<open>-l\<close>
  from this buffer, and the C string at the start of the buffer is \<^verbatim>\<open>ls\<close> alone. The
  buffer is another line from then on; \<^verbatim>\<open>main\<close> frees it and reads the next line into
  a fresh one.
\<close>

lemma parseInput_consumes_buffer:
  "case parseInput ''ls -l\<newline>'' 0 of
     Inl f \<Rightarrow> False
   | Inr (command, buf', saved') \<Rightarrow>
       buf' = ''ls'' @ [NUL] @ ''-l'' @ [NUL]
       \<and> Command_of buf' command
           = Inr \<lparr>arguments = [''ls'', ''-l''], input_redirect = None, output_redirect = None\<rparr>
       \<and> parsed buf' saved'
           = Inr \<lparr>arguments = [''ls''], input_redirect = None, output_redirect = None\<rparr>"
  by code_simp

section \<open>The claims\<close>

text \<open>
  In the claims an input line is the C string at the start of the buffer handed to
  \<^verbatim>\<open>parseInput\<close>, \<open>c_string buf 0\<close>. The separators of the parser are the space and
  the newline (\<open>is_sep\<close>); where a claim speaks of whitespace, it is compared with
  \<open>is_whitespace\<close>. The Command that a call of \<^verbatim>\<open>parseInput\<close> yields is read from the
  buffer as the call leaves it (\<open>parsed\<close>, \<open>Command_of\<close>). \<^verbatim>\<open>parseInput\<close> is a total
  function: it yields a Command, or it stores outside \<^verbatim>\<open>args\<close>.
\<close>

subsection \<open>C1: the parser builds the Command\<close>

text \<open>
  C1 as stated has the parser split the line into whitespace-delimited tokens. The
  parser splits at the two characters it hands to \<^verbatim>\<open>strtok\<close>, the space and the
  newline: in the line of \<^verbatim>\<open>ls\<close>, a tab and \<^verbatim>\<open>-l\<close> the tab delimits two words, and the
  parser makes one argument of the whole.
\<close>

theorem tab_does_not_delimit_tokens:
  "whitespace_tokens (c_string (''ls'' @ [CHR 0x09] @ ''-l\<newline>'') 0) = [''ls'', ''-l'']
   \<and> parsed (''ls'' @ [CHR 0x09] @ ''-l\<newline>'') 0
       = Inr \<lparr>arguments = [''ls'' @ [CHR 0x09] @ ''-l''], input_redirect = None,
              output_redirect = None\<rparr>"
  by code_simp

text \<open>
  C1, amended. For every input line that \<^verbatim>\<open>parseInput\<close> turns into a Command, the
  Command is the one the specification describes for the tokens of the line, the tokens
  being the pieces between spaces and newlines: a token \<^verbatim>\<open><\<close> makes the next token the
  input redirect, a token \<^verbatim>\<open>>\<close> makes the next token the output redirect, every other
  token is appended to the arguments. The arguments keep the order of the line (they
  are a subsequence of its tokens), and every token is counted once: as an argument, as
  an operator, or as the path an operator consumed. The result does not depend on the
  pointer earlier calls left in \<^verbatim>\<open>strtok\<close>. \<^verbatim>\<open>parseInput\<close> always terminates, and the
  only way it yields no Command is the store outside \<^verbatim>\<open>args\<close> of C9, on a line whose
  arguments do not fit the array.
\<close>

theorem parseInput_builds_Command:
  "case parseInput buf saved of
     Inl f \<Rightarrow>
       f = OutOfBounds MAX_ARGS
       \<and> MAX_ARGS \<le> length (arguments (spec_parse (tokens (c_string buf 0)) empty_Command))
   | Inr (command, buf', saved') \<Rightarrow>
       Command_of buf' command = Inr (spec_parse (tokens (c_string buf 0)) empty_Command)
       \<and> subseq (arguments (spec_parse (tokens (c_string buf 0)) empty_Command))
           (tokens (c_string buf 0))
       \<and> length (tokens (c_string buf 0))
           = length (arguments (spec_parse (tokens (c_string buf 0)) empty_Command))
             + length (operators (tokens (c_string buf 0)))
             + length (filter (\<lambda>r. snd r \<noteq> None) (operators (tokens (c_string buf 0))))"
proof (cases "parseInput buf saved")
  case (Inl f)
  with parseInput_faults_iff [of buf saved f] show ?thesis
    by simp
next
  case (Inr r)
  obtain command buf' saved' where r: "r = (command, buf', saved')"
    by (cases r)
  with Inr have parsed: "parseInput buf saved = Inr (command, buf', saved')"
    by simp
  have "subseq (arguments (spec_parse (tokens (c_string buf 0)) empty_Command))
      (tokens (c_string buf 0))"
    using spec_parse_subseq [of "tokens (c_string buf 0)" empty_Command]
    by (auto simp: empty_Command_def)
  moreover have "length (tokens (c_string buf 0))
      = length (arguments (spec_parse (tokens (c_string buf 0)) empty_Command))
        + length (operators (tokens (c_string buf 0)))
        + length (filter (\<lambda>r. snd r \<noteq> None) (operators (tokens (c_string buf 0))))"
    using spec_parse_partition [of "tokens (c_string buf 0)" empty_Command]
    by (simp add: empty_Command_def)
  ultimately show ?thesis
    using parseInput_InrD(2) [OF parsed] by (simp add: parsed)
qed

text \<open>The line \<^verbatim>\<open>sort -r < in.txt > out.txt\<close>, parsed.\<close>

theorem parseInput_builds_Command_witness:
  "tokens (c_string ''sort -r < in.txt > out.txt\<newline>'' 0)
       = [''sort'', ''-r'', ''<'', ''in.txt'', ''>'', ''out.txt'']
   \<and> (\<exists>command buf' saved'.
         parseInput ''sort -r < in.txt > out.txt\<newline>'' 0 = Inr (command, buf', saved')
         \<and> Command_of buf' command
             = Inr \<lparr>arguments = [''sort'', ''-r''], input_redirect = Some ''in.txt'',
                    output_redirect = Some ''out.txt''\<rparr>)"
proof -
  have toks: "tokens (c_string ''sort -r < in.txt > out.txt\<newline>'' 0)
      = [''sort'', ''-r'', ''<'', ''in.txt'', ''>'', ''out.txt'']"
    by code_simp
  have built: "spec_parse (tokens (c_string ''sort -r < in.txt > out.txt\<newline>'' 0)) empty_Command
      = \<lparr>arguments = [''sort'', ''-r''], input_redirect = Some ''in.txt'',
          output_redirect = Some ''out.txt''\<rparr>"
    by (simp add: toks empty_Command_def)
  have "length (arguments (spec_parse (tokens (c_string ''sort -r < in.txt > out.txt\<newline>'' 0))
      empty_Command)) < MAX_ARGS"
    by (simp add: built MAX_ARGS_def)
  then obtain command buf' saved' where
    parsed: "parseInput ''sort -r < in.txt > out.txt\<newline>'' 0 = Inr (command, buf', saved')"
    by (rule parseInput_InrI)
  from parseInput_builds_Command [of "''sort -r < in.txt > out.txt\<newline>''" 0]
  have "Command_of buf' command
      = Inr \<lparr>arguments = [''sort'', ''-r''], input_redirect = Some ''in.txt'',
             output_redirect = Some ''out.txt''\<rparr>"
    unfolding parsed built by simp
  with toks parsed show ?thesis by blast
qed

subsection \<open>C2: cd without an argument\<close>

text \<open>
  C2. For every Command whose argument vector is \<^verbatim>\<open>cd\<close> alone, \<^verbatim>\<open>executeCommand\<close>
  returns (the interpreter goes on), and the state it returns differs from the one it
  was given only in standard error, which has received exactly
  \<^verbatim>\<open>cd: missing argument\<close> and a newline. The working directory is the same, nothing
  went to standard output and no child was forked.
\<close>

theorem cd_without_argument:
  assumes "argv buf command = Inr [''cd'']"
  shows "executeCommand sys command buf s
           = Returns () (s\<lparr>stderr := stderr s @ ''cd: missing argument\<newline>''\<rparr>)"
proof -
  from assms obtain p where "read_arg command 0 = Inr (Ptr p)" "c_string buf p = ''cd''"
    by (auto dest: argv_Cons)
  moreover from assms have "read_arg command (Suc 0) = Inr Null"
    by (rule argv_single)
  ultimately show ?thesis
    by (simp add: executeCommand_def)
qed

text \<open>The line \<^verbatim>\<open>cd\<close>, parsed and executed in \<^verbatim>\<open>/home\<close>.\<close>

theorem cd_without_argument_witness:
  "\<exists>command buf saved.
     parseInput ''cd\<newline>'' 0 = Inr (command, buf, saved)
     \<and> argv buf command = Inr [''cd'']
     \<and> executeCommand example_os command buf (example_shell [])
         = Returns ()
           \<lparr>cwd = ''/home'', stdout = [], stderr = ''cd: missing argument\<newline>'',
            stdin = [], children = [], strtok_saved = 0\<rparr>"
proof -
  have toks: "tokens (c_string ''cd\<newline>'' 0) = [''cd'']"
    by code_simp
  have "length (arguments (spec_parse (tokens (c_string ''cd\<newline>'' 0)) empty_Command)) < MAX_ARGS"
    by (simp add: toks empty_Command_def MAX_ARGS_def)
  then obtain command buf saved where parsed: "parseInput ''cd\<newline>'' 0 = Inr (command, buf, saved)"
    by (rule parseInput_InrI)
  from Command_of_InrD(1) [OF parseInput_InrD(2) [OF parsed]]
  have av: "argv buf command = Inr [''cd'']"
    by (simp add: toks empty_Command_def)
  show ?thesis
    using parsed av cd_without_argument [OF av, of example_os "example_shell []"]
    by (simp add: example_shell_def)
qed

subsection \<open>C3: cd into a directory that cannot be entered\<close>

text \<open>
  C3. For every Command whose first argument is \<^verbatim>\<open>cd\<close> and whose second argument is
  a directory on which \<^verbatim>\<open>chdir\<close> fails with the code \<open>errno\<close>, \<^verbatim>\<open>executeCommand\<close>
  returns (the interpreter goes on), and the state it returns differs from the one it
  was given only in standard output, which has received \<^verbatim>\<open>Error\<close>, the code in
  decimal, its description in parentheses, and a newline. The working directory is the
  same.
\<close>

theorem cd_failure_reported:
  assumes "argv buf command = Inr (''cd'' # dir # rest)"
    and "os_chdir sys (cwd s) dir = Inl errno"
  shows "executeCommand sys command buf s
           = Returns () (s\<lparr>stdout := stdout s @ ''Error '' @ fmt_d errno @ '' (''
                                    @ strerror sys errno @ '')\<newline>''\<rparr>)"
proof -
  from assms(1) obtain p where "read_arg command 0 = Inr (Ptr p)" "c_string buf p = ''cd''"
    by (auto dest: argv_Cons)
  moreover from assms(1) obtain q where "read_arg command (Suc 0) = Inr (Ptr q)" "c_string buf q = dir"
    by (auto dest: argv_second)
  ultimately show ?thesis
    using assms(2) by (simp add: executeCommand_def error_line_def)
qed

text \<open>The line \<^verbatim>\<open>cd /nonexistent\<close>: the message is \<^verbatim>\<open>Error 2 (No such file or directory)\<close>.\<close>

theorem cd_failure_reported_witness:
  "\<exists>command buf saved.
     parseInput ''cd /nonexistent\<newline>'' 0 = Inr (command, buf, saved)
     \<and> argv buf command = Inr [''cd'', ''/nonexistent'']
     \<and> os_chdir example_os ''/home'' ''/nonexistent'' = Inl 2
     \<and> executeCommand example_os command buf (example_shell [])
         = Returns ()
           \<lparr>cwd = ''/home'', stdout = ''Error 2 (No such file or directory)\<newline>'',
            stderr = [], stdin = [], children = [], strtok_saved = 0\<rparr>"
proof -
  have toks: "tokens (c_string ''cd /nonexistent\<newline>'' 0) = [''cd'', ''/nonexistent'']"
    by code_simp
  have "length (arguments (spec_parse (tokens (c_string ''cd /nonexistent\<newline>'' 0)) empty_Command))
      < MAX_ARGS"
    by (simp add: toks empty_Command_def MAX_ARGS_def)
  then obtain command buf saved where
    parsed: "parseInput ''cd /nonexistent\<newline>'' 0 = Inr (command, buf, saved)"
    by (rule parseInput_InrI)
  from Command_of_InrD(1) [OF parseInput_InrD(2) [OF parsed]]
  have av: "argv buf command = Inr (''cd'' # ''/nonexistent'' # [])"
    by (simp add: toks empty_Command_def)
  have fails: "os_chdir example_os (cwd (example_shell [])) ''/nonexistent'' = Inl 2"
    by (simp add: example_os_def)
  have two: "fmt_d 2 = ''2''"
    by code_simp
  show ?thesis
    using parsed av fails cd_failure_reported [OF av fails]
    by (simp add: example_os_def example_shell_def two)
qed

subsection \<open>C4: blank lines\<close>

text \<open>
  C4 as stated speaks of the lines that consist of whitespace. A tab is whitespace and
  no separator of the parser: for the line of a tab and a newline the pass forks a
  child, which calls \<^verbatim>\<open>execvp\<close> with the tab as the name of the program.
\<close>

theorem tab_line_runs_a_command:
  "list_all is_whitespace (c_string [CHR 0x09, CHR ''\<newline>''] 0)
   \<and> shell_step example_os (example_shell [CHR 0x09, CHR ''\<newline>''])
       = Returns Continue
           \<lparr>cwd = ''/home'', stdout = ''/home$ '', stderr = [], stdin = [],
            children = [[EvExecvp [CHR 0x09] [[CHR 0x09]]]], strtok_saved = 2\<rparr>"
  by code_simp

text \<open>
  C4, amended. Let one pass of the loop show the prompt and read a line that holds only
  spaces and newlines. Then the pass ends with \<^verbatim>\<open>continue\<close> or at the end of the loop
  body, so the loop goes on to its next pass and the prompt, in the state the prompt
  and the read have left, up to the hidden pointer of \<^verbatim>\<open>strtok\<close>: the working directory
  is the one before the pass and no built-in has changed it, no child was forked (so no
  file was opened), nothing was written but the prompt.
\<close>

theorem blank_line_runs_nothing:
  assumes "getInput sys (displayPrompt sys s) = Returns (Some buf) s'"
    and "\<forall>c\<in>set (c_string buf 0). is_sep c"
  shows "\<exists>saved. shell_step sys s = Returns Continue (s'\<lparr>strtok_saved := saved\<rparr>)
           \<and> cwd s' = cwd s \<and> children s' = children s
           \<and> stdout s' = stdout (displayPrompt sys s) \<and> stderr s' = stderr (displayPrompt sys s)"
proof -
  have step: "\<exists>saved. shell_step sys s = Returns Continue (s'\<lparr>strtok_saved := saved\<rparr>)"
  proof (cases "c_string buf 0 = ''\<newline>''")
    case True
    with assms(1) have "shell_step sys s = Returns Continue (s'\<lparr>strtok_saved := strtok_saved s'\<rparr>)"
      by (simp add: shell_step_def)
    then show ?thesis ..
  next
    case False
    from assms(2) have toks: "tokens (c_string buf 0) = []"
      by (simp add: tokens_blank)
    then have "length (arguments (spec_parse (tokens (c_string buf 0)) empty_Command)) < MAX_ARGS"
      by (simp add: empty_Command_def MAX_ARGS_def)
    then obtain command buf' saved where
      parsed: "parseInput buf (strtok_saved s') = Inr (command, buf', saved)"
      by (rule parseInput_InrI)
    from Command_of_InrD(1) [OF parseInput_InrD(2) [OF parsed]]
    have "argv buf' command = Inr []"
      by (simp add: toks empty_Command_def)
    then have "executeCommand sys command buf' (s'\<lparr>strtok_saved := saved\<rparr>)
        = Returns () (s'\<lparr>strtok_saved := saved\<rparr>)"
      by (rule executeCommand_empty)
    with assms(1) parsed False
    have "shell_step sys s = Returns Continue (s'\<lparr>strtok_saved := saved\<rparr>)"
      by (simp add: shell_step_def)
    then show ?thesis ..
  qed
  have frame: "cwd s' = cwd s \<and> children s' = children s
      \<and> stdout s' = stdout (displayPrompt sys s) \<and> stderr s' = stderr (displayPrompt sys s)"
    using assms(1)
    by (auto simp: getInput_def displayPrompt_def perror_def split: option.splits if_splits)
  with step show ?thesis by blast
qed

text \<open>Three spaces and a newline, followed by a line for the next pass.\<close>

theorem blank_line_runs_nothing_witness:
  "getInput example_os (displayPrompt example_os (example_shell ''   \<newline>ls\<newline>''))
     = Returns (Some ''   \<newline>'')
         \<lparr>cwd = ''/home'', stdout = ''/home$ '', stderr = [], stdin = ''ls\<newline>'',
          children = [], strtok_saved = 0\<rparr>
   \<and> list_all is_sep (c_string ''   \<newline>'' 0)
   \<and> (\<exists>saved. shell_step example_os (example_shell ''   \<newline>ls\<newline>'')
     = Returns Continue
         \<lparr>cwd = ''/home'', stdout = ''/home$ '', stderr = [], stdin = ''ls\<newline>'',
          children = [], strtok_saved = saved\<rparr>)"
proof -
  have got: "getInput example_os (displayPrompt example_os (example_shell ''   \<newline>ls\<newline>''))
     = Returns (Some ''   \<newline>'')
         \<lparr>cwd = ''/home'', stdout = ''/home$ '', stderr = [], stdin = ''ls\<newline>'',
          children = [], strtok_saved = 0\<rparr>"
    by (simp add: getInput_def displayPrompt_def example_os_def example_shell_def MAX_INPUT_def)
  have line: "c_string ''   \<newline>'' 0 = ''   \<newline>''"
    by (simp add: c_string_def NUL_def)
  have blank: "\<forall>c\<in>set (c_string ''   \<newline>'' 0). is_sep c"
    by (simp add: line is_sep_def)
  from blank_line_runs_nothing [OF got blank]
  obtain saved where "shell_step example_os (example_shell ''   \<newline>ls\<newline>'')
     = Returns Continue
         \<lparr>cwd = ''/home'', stdout = ''/home$ '', stderr = [], stdin = ''ls\<newline>'',
          children = [], strtok_saved = saved\<rparr>"
    by auto
  with got blank show ?thesis
    by (auto simp: list_all_iff)
qed

subsection \<open>C5: when the arguments are empty\<close>

text \<open>
  C5 as stated says that the arguments are empty only for a line of whitespace. The
  line \<^verbatim>\<open>> out.txt\<close> is not blank, and its Command has no argument: the path went to
  \<^verbatim>\<open>outputFile\<close>.
\<close>

theorem nonblank_line_with_empty_arguments:
  "\<not> list_all is_sep (c_string ''> out.txt\<newline>'' 0)
   \<and> parsed ''> out.txt\<newline>'' 0
       = Inr \<lparr>arguments = [], input_redirect = None, output_redirect = Some ''out.txt''\<rparr>"
  by code_simp

text \<open>
  C5, amended. For every input line that \<^verbatim>\<open>parseInput\<close> turns into a Command, the
  arguments are empty exactly when the tokens of the line are redirections only:
  operators, each with the token it consumes as its path. A line of spaces and newlines
  has no token and is one such line. So every line that holds a token which is neither
  an operator nor the path of one yields a Command with an argument.
\<close>

theorem arguments_empty_iff_redirects_only:
  assumes "parseInput buf saved = Inr (command, buf', saved')"
  shows "(argv buf' command = Inr []) = redirects_only (tokens (c_string buf 0))
         \<and> (list_all is_sep (c_string buf 0) \<longrightarrow> argv buf' command = Inr [])"
proof -
  from Command_of_InrD(1) [OF parseInput_InrD(2) [OF assms]]
  have av: "argv buf' command
      = Inr (arguments (spec_parse (tokens (c_string buf 0)) empty_Command))" .
  have only: "redirects_only (tokens (c_string buf 0))
      = (arguments (spec_parse (tokens (c_string buf 0)) empty_Command) = [])"
    by (simp add: spec_parse_redirects_only [where c = empty_Command] empty_Command_def)
  have "tokens (c_string buf 0) = []" if "list_all is_sep (c_string buf 0)"
    using that by (simp add: tokens_blank list_all_iff)
  then show ?thesis
    by (auto simp: av only empty_Command_def)
qed

text \<open>
  The line \<^verbatim>\<open>< in.txt wc\<close>: one argument, not redirections only. The line of two
  spaces: blank, no argument.
\<close>

theorem arguments_empty_iff_redirects_only_witness:
  "(\<exists>command buf' saved'. parseInput ''< in.txt wc\<newline>'' 0 = Inr (command, buf', saved')
      \<and> argv buf' command = Inr [''wc'']
      \<and> \<not> redirects_only (tokens (c_string ''< in.txt wc\<newline>'' 0)))
   \<and> (\<exists>command buf' saved'. parseInput ''  \<newline>'' 0 = Inr (command, buf', saved')
      \<and> list_all is_sep (c_string ''  \<newline>'' 0)
      \<and> argv buf' command = Inr [])"
proof -
  have toks: "tokens (c_string ''< in.txt wc\<newline>'' 0) = [''<'', ''in.txt'', ''wc'']"
    by code_simp
  have "length (arguments (spec_parse (tokens (c_string ''< in.txt wc\<newline>'' 0)) empty_Command))
      < MAX_ARGS"
    by (simp add: toks empty_Command_def MAX_ARGS_def)
  then obtain command buf' saved' where
    parsed: "parseInput ''< in.txt wc\<newline>'' 0 = Inr (command, buf', saved')"
    by (rule parseInput_InrI)
  from Command_of_InrD(1) [OF parseInput_InrD(2) [OF parsed]]
  have av: "argv buf' command = Inr [''wc'']"
    by (simp add: toks empty_Command_def)
  from arguments_empty_iff_redirects_only [OF parsed] av
  have "\<not> redirects_only (tokens (c_string ''< in.txt wc\<newline>'' 0))"
    by simp
  with parsed av have first: "\<exists>command buf' saved'.
      parseInput ''< in.txt wc\<newline>'' 0 = Inr (command, buf', saved')
      \<and> argv buf' command = Inr [''wc'']
      \<and> \<not> redirects_only (tokens (c_string ''< in.txt wc\<newline>'' 0))"
    by blast
  have blank: "list_all is_sep (c_string ''  \<newline>'' 0)"
    by code_simp
  then have none: "tokens (c_string ''  \<newline>'' 0) = []"
    by (simp add: tokens_blank list_all_iff)
  have "length (arguments (spec_parse (tokens (c_string ''  \<newline>'' 0)) empty_Command)) < MAX_ARGS"
    by (simp add: none empty_Command_def MAX_ARGS_def)
  then obtain command2 buf2 saved2 where
    parsed2: "parseInput ''  \<newline>'' 0 = Inr (command2, buf2, saved2)"
    by (rule parseInput_InrI)
  from arguments_empty_iff_redirects_only [OF parsed2] blank
  have "argv buf2 command2 = Inr []"
    by simp
  with parsed2 blank have "\<exists>command buf' saved'.
      parseInput ''  \<newline>'' 0 = Inr (command, buf', saved')
      \<and> list_all is_sep (c_string ''  \<newline>'' 0)
      \<and> argv buf' command = Inr []"
    by blast
  with first show ?thesis by blast
qed

subsection \<open>C6: an operator at the end of the line\<close>

text \<open>
  C6 as stated takes a final token \<^verbatim>\<open><\<close> or \<^verbatim>\<open>>\<close> with no token behind it for an operator
  without a path. In the line \<^verbatim>\<open>cat < <\<close> the final token is such a \<^verbatim>\<open><\<close>, and the parser
  has consumed it as the path of the \<^verbatim>\<open><\<close> before it: the input redirect is recorded as
  the file named \<^verbatim>\<open><\<close>, and the child opens it.
\<close>

theorem final_operator_token_taken_as_path:
  "tokens (c_string ''cat < <\<newline>'' 0) = [''cat'', ''<'', ''<'']
   \<and> tokens_after ''<'' (tokens (c_string ''cat < <\<newline>'' 0)) = [Some ''<'', None]
   \<and> parsed ''cat < <\<newline>'' 0
       = Inr \<lparr>arguments = [''cat''], input_redirect = Some ''<'', output_redirect = None\<rparr>
   \<and> (case parseInput ''cat < <\<newline>'' 0 of
         Inl f \<Rightarrow> False
       | Inr (command, buf', saved') \<Rightarrow>
           child_input example_os command buf' (example_shell [])
             = Inr ([EvOpen ''<'' [O_RDONLY] None, EvDup2 3 0, EvClose 3], True))"
  by code_simp

text \<open>
  C6, amended. Let the last redirection operator of a line have no token behind it (it
  is then the last token of the line, and it is an operator: not the path of the
  operator before it). If \<^verbatim>\<open>parseInput\<close> turns the line into a Command, then for \<^verbatim>\<open><\<close>
  its \<^verbatim>\<open>inputFile\<close> is \<^verbatim>\<open>NULL\<close> and the child's input block opens nothing and lets the
  child go on; for \<^verbatim>\<open>>\<close> the same holds of \<^verbatim>\<open>outputFile\<close> and the output block; and
  \<^verbatim>\<open>executeCommand\<close> on this Command has no undefined step, in particular no null
  pointer is read as a string. The only way \<^verbatim>\<open>parseInput\<close> yields no Command is the
  store outside \<^verbatim>\<open>args\<close> of C9, on a line whose arguments do not fit the array.
\<close>

theorem trailing_operator_means_no_redirect:
  assumes "operators (tokens (c_string buf 0)) \<noteq> []"
    and "last (operators (tokens (c_string buf 0))) = (operator, None)"
  shows "case parseInput buf saved of
     Inl f \<Rightarrow>
       f = OutOfBounds MAX_ARGS
       \<and> MAX_ARGS \<le> length (arguments (spec_parse (tokens (c_string buf 0)) empty_Command))
   | Inr (command, buf', saved') \<Rightarrow>
       (operator = ''<'' \<longrightarrow>
          inputFile command = Null \<and> child_input sys command buf' s = Inr ([], True))
       \<and> (operator = ''>'' \<longrightarrow>
          outputFile command = Null \<and> child_output sys command buf' s = Inr ([], True))
       \<and> (\<forall>g. executeCommand sys command buf' s \<noteq> Fault g)"
proof (cases "parseInput buf saved")
  case (Inl f)
  with parseInput_faults_iff [of buf saved f] show ?thesis
    by simp
next
  case (Inr r)
  obtain command buf' saved' where r: "r = (command, buf', saved')"
    by (cases r)
  with Inr have parsed: "parseInput buf saved = Inr (command, buf', saved')"
    by simp
  note init = parseInput_InrD(3,4) [OF parsed]
  note fields = Command_of_InrD [OF parseInput_InrD(2) [OF parsed]]
  have paths: "paths_of operator (tokens (c_string buf 0)) \<noteq> []"
    "last (paths_of operator (tokens (c_string buf 0))) = None"
    using assms by (rule paths_of_last)+
  have "read_path buf' (inputFile command) = Inr None" if "operator = ''<''"
    using that paths by (simp add: fields spec_parse_input)
  then have inp: "inputFile command = Null" if "operator = ''<''"
    using that by (simp add: read_path_None)
  have "read_path buf' (outputFile command) = Inr None" if "operator = ''>''"
    using that paths by (simp add: fields spec_parse_output)
  then have out: "outputFile command = Null" if "operator = ''>''"
    using that by (simp add: read_path_None)
  have "executeCommand sys command buf' s \<noteq> Fault g" for g
    using fields(1) init by (rule executeCommand_defined)
  with inp out show ?thesis
    by (auto simp: parsed child_input_def child_output_def)
qed

text \<open>
  The line \<^verbatim>\<open>cat < in.txt <\<close>: the second operator clears the redirect. The line
  \<^verbatim>\<open>ls >\<close>: no output redirect.
\<close>

theorem trailing_operator_means_no_redirect_witness:
  "operators (tokens (c_string ''cat < in.txt <\<newline>'' 0)) = [(''<'', Some ''in.txt''), (''<'', None)]
   \<and> (\<exists>command buf' saved'. parseInput ''cat < in.txt <\<newline>'' 0 = Inr (command, buf', saved')
         \<and> inputFile command = Null
         \<and> child_input example_os command buf' (example_shell []) = Inr ([], True)
         \<and> (\<forall>g. executeCommand example_os command buf' (example_shell []) \<noteq> Fault g))
   \<and> operators (tokens (c_string ''ls >\<newline>'' 0)) = [(''>'', None)]
   \<and> (\<exists>command buf' saved'. parseInput ''ls >\<newline>'' 0 = Inr (command, buf', saved')
         \<and> outputFile command = Null
         \<and> child_output example_os command buf' (example_shell []) = Inr ([], True)
         \<and> (\<forall>g. executeCommand example_os command buf' (example_shell []) \<noteq> Fault g))"
proof -
  have toks: "tokens (c_string ''cat < in.txt <\<newline>'' 0) = [''cat'', ''<'', ''in.txt'', ''<'']"
    by code_simp
  have ops: "operators (tokens (c_string ''cat < in.txt <\<newline>'' 0))
      = [(''<'', Some ''in.txt''), (''<'', None)]"
    by (simp add: toks)
  have "length (arguments (spec_parse (tokens (c_string ''cat < in.txt <\<newline>'' 0))
      empty_Command)) < MAX_ARGS"
    by (simp add: toks empty_Command_def MAX_ARGS_def)
  then obtain command buf' saved' where
    parsed: "parseInput ''cat < in.txt <\<newline>'' 0 = Inr (command, buf', saved')"
    by (rule parseInput_InrI)
  have ne: "operators (tokens (c_string ''cat < in.txt <\<newline>'' 0)) \<noteq> []"
    and final: "last (operators (tokens (c_string ''cat < in.txt <\<newline>'' 0))) = (''<'', None)"
    by (simp_all add: ops)
  from trailing_operator_means_no_redirect [OF ne final,
      where saved = 0 and sys = example_os and s = "example_shell []"]
  have "inputFile command = Null
      \<and> child_input example_os command buf' (example_shell []) = Inr ([], True)
      \<and> (\<forall>g. executeCommand example_os command buf' (example_shell []) \<noteq> Fault g)"
    unfolding parsed by simp
  with parsed have first: "\<exists>command buf' saved'.
      parseInput ''cat < in.txt <\<newline>'' 0 = Inr (command, buf', saved')
      \<and> inputFile command = Null
      \<and> child_input example_os command buf' (example_shell []) = Inr ([], True)
      \<and> (\<forall>g. executeCommand example_os command buf' (example_shell []) \<noteq> Fault g)"
    by blast
  have toks2: "tokens (c_string ''ls >\<newline>'' 0) = [''ls'', ''>'']"
    by code_simp
  have ops2: "operators (tokens (c_string ''ls >\<newline>'' 0)) = [(''>'', None)]"
    by (simp add: toks2)
  have "length (arguments (spec_parse (tokens (c_string ''ls >\<newline>'' 0)) empty_Command))
      < MAX_ARGS"
    by (simp add: toks2 empty_Command_def MAX_ARGS_def)
  then obtain command2 buf2 saved2 where
    parsed2: "parseInput ''ls >\<newline>'' 0 = Inr (command2, buf2, saved2)"
    by (rule parseInput_InrI)
  have ne2: "operators (tokens (c_string ''ls >\<newline>'' 0)) \<noteq> []"
    and final2: "last (operators (tokens (c_string ''ls >\<newline>'' 0))) = (''>'', None)"
    by (simp_all add: ops2)
  from trailing_operator_means_no_redirect [OF ne2 final2,
      where saved = 0 and sys = example_os and s = "example_shell []"]
  have "outputFile command2 = Null
      \<and> child_output example_os command2 buf2 (example_shell []) = Inr ([], True)
      \<and> (\<forall>g. executeCommand example_os command2 buf2 (example_shell []) \<noteq> Fault g)"
    unfolding parsed2 by simp
  with parsed2 have second: "\<exists>command buf' saved'.
      parseInput ''ls >\<newline>'' 0 = Inr (command, buf', saved')
      \<and> outputFile command = Null
      \<and> child_output example_os command buf' (example_shell []) = Inr ([], True)
      \<and> (\<forall>g. executeCommand example_os command buf' (example_shell []) \<noteq> Fault g)"
    by blast
  from ops first ops2 second show ?thesis by blast
qed

subsection \<open>C7: the last redirection wins\<close>

text \<open>
  C7 as stated takes every token \<^verbatim>\<open><\<close> of the line for an operator. The line
  \<^verbatim>\<open>cat < < a\<close> holds two of them and the token behind the last is \<^verbatim>\<open>a\<close>; the parser has
  consumed the second \<^verbatim>\<open><\<close> as the path of the first, so the input redirect is the file
  named \<^verbatim>\<open><\<close>, and \<^verbatim>\<open>a\<close> is an argument.
\<close>

theorem second_operator_token_taken_as_path:
  "tokens_after ''<'' (tokens (c_string ''cat < < a\<newline>'' 0)) = [Some ''<'', Some ''a'']
   \<and> parsed ''cat < < a\<newline>'' 0
       = Inr \<lparr>arguments = [''cat'', ''a''], input_redirect = Some ''<'',
              output_redirect = None\<rparr>"
  by code_simp

text \<open>
  C7, amended. The operators of a line are those of \<open>operators\<close>: a token \<^verbatim>\<open><\<close> or \<^verbatim>\<open>>\<close>
  that the operator before it has not consumed as its path. If \<^verbatim>\<open>parseInput\<close> turns the
  line into a Command: when the line has two or more operators \<^verbatim>\<open><\<close>, \<^verbatim>\<open>inputFile\<close>
  points to the token that follows the last of them (and is \<^verbatim>\<open>NULL\<close> when none
  follows); when it has two or more operators \<^verbatim>\<open>>\<close>, the same holds of \<^verbatim>\<open>outputFile\<close>.
  An earlier path is overwritten and no error is raised. The only way \<^verbatim>\<open>parseInput\<close>
  yields no Command is the store outside \<^verbatim>\<open>args\<close> of C9, on a line whose arguments do
  not fit the array.
\<close>

theorem last_redirection_wins:
  "case parseInput buf saved of
     Inl f \<Rightarrow>
       f = OutOfBounds MAX_ARGS
       \<and> MAX_ARGS \<le> length (arguments (spec_parse (tokens (c_string buf 0)) empty_Command))
   | Inr (command, buf', saved') \<Rightarrow>
       (2 \<le> length (paths_of ''<'' (tokens (c_string buf 0)))
          \<longrightarrow> read_path buf' (inputFile command)
                = Inr (last (paths_of ''<'' (tokens (c_string buf 0)))))
       \<and> (2 \<le> length (paths_of ''>'' (tokens (c_string buf 0)))
          \<longrightarrow> read_path buf' (outputFile command)
                = Inr (last (paths_of ''>'' (tokens (c_string buf 0)))))"
proof (cases "parseInput buf saved")
  case (Inl f)
  with parseInput_faults_iff [of buf saved f] show ?thesis
    by simp
next
  case (Inr r)
  obtain command buf' saved' where r: "r = (command, buf', saved')"
    by (cases r)
  with Inr have parsed: "parseInput buf saved = Inr (command, buf', saved')"
    by simp
  note fields = Command_of_InrD [OF parseInput_InrD(2) [OF parsed]]
  have "paths_of operator (tokens (c_string buf 0)) \<noteq> []"
    if "2 \<le> length (paths_of operator (tokens (c_string buf 0)))" for operator
    using that by auto
  then show ?thesis
    by (simp add: parsed fields spec_parse_input spec_parse_output)
qed

text \<open>Two input and two output redirections on one line.\<close>

theorem last_redirection_wins_witness:
  "\<exists>command buf' saved'.
     parseInput ''sort < a.txt > b.txt < c.txt > d.txt\<newline>'' 0 = Inr (command, buf', saved')
     \<and> paths_of ''<'' (tokens (c_string ''sort < a.txt > b.txt < c.txt > d.txt\<newline>'' 0))
         = [Some ''a.txt'', Some ''c.txt'']
     \<and> paths_of ''>'' (tokens (c_string ''sort < a.txt > b.txt < c.txt > d.txt\<newline>'' 0))
         = [Some ''b.txt'', Some ''d.txt'']
     \<and> read_path buf' (inputFile command) = Inr (Some ''c.txt'')
     \<and> read_path buf' (outputFile command) = Inr (Some ''d.txt'')"
proof -
  have toks: "tokens (c_string ''sort < a.txt > b.txt < c.txt > d.txt\<newline>'' 0)
      = [''sort'', ''<'', ''a.txt'', ''>'', ''b.txt'', ''<'', ''c.txt'', ''>'', ''d.txt'']"
    by code_simp
  have ins: "paths_of ''<'' (tokens (c_string ''sort < a.txt > b.txt < c.txt > d.txt\<newline>'' 0))
      = [Some ''a.txt'', Some ''c.txt'']"
    and outs: "paths_of ''>'' (tokens (c_string ''sort < a.txt > b.txt < c.txt > d.txt\<newline>'' 0))
      = [Some ''b.txt'', Some ''d.txt'']"
    by (simp_all add: toks paths_of_def)
  have "length (arguments (spec_parse
      (tokens (c_string ''sort < a.txt > b.txt < c.txt > d.txt\<newline>'' 0)) empty_Command)) < MAX_ARGS"
    by (simp add: toks empty_Command_def MAX_ARGS_def)
  then obtain command buf' saved' where parsed:
    "parseInput ''sort < a.txt > b.txt < c.txt > d.txt\<newline>'' 0 = Inr (command, buf', saved')"
    by (rule parseInput_InrI)
  from last_redirection_wins [of "''sort < a.txt > b.txt < c.txt > d.txt\<newline>''" 0]
  have "read_path buf' (inputFile command) = Inr (Some ''c.txt'')"
    "read_path buf' (outputFile command) = Inr (Some ''d.txt'')"
    unfolding parsed by (simp_all add: ins outs)
  with parsed ins outs show ?thesis by blast
qed

subsection \<open>C8: parsing the same line again\<close>



subsection \<open>C9: the capacity of args\<close>

text \<open>
  C9. The claim says that no store into \<^verbatim>\<open>args\<close> falls outside the array, however many
  tokens the line holds. The source has no such bound: the line \<^verbatim>\<open>echo a a ... a\<close> with
  99 times \<^verbatim>\<open>a\<close> has 100 argument tokens and 203 characters, so \<^verbatim>\<open>fgets\<close> delivers it
  whole; the loop fills the cells 0 to 99 and the terminating store
  \<^verbatim>\<open>command.args[i] = NULL\<close> goes to index 100, outside \<^verbatim>\<open>char *args[100]\<close>.
\<close>

theorem parseInput_stores_outside_args:
  "fgets MAX_INPUT (''echo'' @ concat (replicate 99 '' a'') @ ''\<newline>'')
     = (''echo'' @ concat (replicate 99 '' a'') @ ''\<newline>'', [])
   \<and> parseInput (''echo'' @ concat (replicate 99 '' a'') @ ''\<newline>'') 0 = Inl (OutOfBounds 100)"
proof -
  have read: "fgets MAX_INPUT (''echo'' @ concat (replicate 99 '' a'') @ ''\<newline>'')
     = (''echo'' @ concat (replicate 99 '' a'') @ ''\<newline>'', [])"
    by code_simp
  have "length (arguments (spec_parse
      (tokens (c_string (''echo'' @ concat (replicate 99 '' a'') @ ''\<newline>'') 0)) empty_Command)) = 100"
    by code_simp
  then have "parseInput (''echo'' @ concat (replicate 99 '' a'') @ ''\<newline>'') 0
      = Inl (OutOfBounds 100)"
    by (simp add: parseInput_faults_iff MAX_ARGS_def)
  with read show ?thesis by blast
qed

subsection \<open>C10: a line of redirections only\<close>

text \<open>
  C10. For every input line whose tokens are redirections only (operators, each with
  the token it consumes as its path, as in \<^verbatim>\<open>> out.txt\<close>), \<^verbatim>\<open>parseInput\<close> returns a
  Command with no argument, and \<^verbatim>\<open>executeCommand\<close> returns on it with the state
  unchanged: no child is forked, so no file is opened, created or truncated, and nothing
  is written.
\<close>

theorem redirections_alone_run_nothing:
  assumes "redirects_only (tokens (c_string buf 0))"
  shows "\<exists>command buf' saved'. parseInput buf saved = Inr (command, buf', saved')
           \<and> argv buf' command = Inr []
           \<and> executeCommand sys command buf' s = Returns () s"
proof -
  from assms have none: "arguments (spec_parse (tokens (c_string buf 0)) empty_Command) = []"
    by (simp add: spec_parse_redirects_only [where c = empty_Command] empty_Command_def)
  then have "length (arguments (spec_parse (tokens (c_string buf 0)) empty_Command)) < MAX_ARGS"
    by (simp add: MAX_ARGS_def)
  then obtain command buf' saved' where
    parsed: "parseInput buf saved = Inr (command, buf', saved')"
    by (rule parseInput_InrI)
  from Command_of_InrD(1) [OF parseInput_InrD(2) [OF parsed]]
  have av: "argv buf' command = Inr []"
    by (simp add: none)
  then have "executeCommand sys command buf' s = Returns () s"
    by (rule executeCommand_empty)
  with parsed av show ?thesis by blast
qed

text \<open>The line \<^verbatim>\<open>> out.txt\<close>: the path is recorded and nothing is run.\<close>

theorem redirections_alone_run_nothing_witness:
  "redirects_only (tokens (c_string ''> out.txt\<newline>'' 0))
   \<and> (\<exists>command buf' saved'. parseInput ''> out.txt\<newline>'' 0 = Inr (command, buf', saved')
         \<and> argv buf' command = Inr []
         \<and> read_path buf' (outputFile command) = Inr (Some ''out.txt'')
         \<and> executeCommand example_os command buf' (example_shell []) = Returns () (example_shell []))"
proof -
  have toks: "tokens (c_string ''> out.txt\<newline>'' 0) = [''>'', ''out.txt'']"
    by code_simp
  have only: "redirects_only (tokens (c_string ''> out.txt\<newline>'' 0))"
    by (simp add: toks)
  from redirections_alone_run_nothing [OF only, of 0 example_os "example_shell []"]
  obtain command buf' saved' where parsed: "parseInput ''> out.txt\<newline>'' 0 = Inr (command, buf', saved')"
    and rest: "argv buf' command = Inr []"
      "executeCommand example_os command buf' (example_shell []) = Returns () (example_shell [])"
    by blast
  from Command_of_InrD(3) [OF parseInput_InrD(2) [OF parsed]]
  have "read_path buf' (outputFile command) = Inr (Some ''out.txt'')"
    by (simp add: toks empty_Command_def)
  with only parsed rest show ?thesis by blast
qed

end
